(* ===== verification/Prelude.thy ===== *)
theory Prelude
  imports Main "HOL-Library.Word" "HOL-Library.AList"
begin

unbundle bit_operations_syntax

text \<open>
  The vocabulary every component shares: bytes and strings, Go's error values, the outcome of a
  function that may panic, and the calls the service makes to the libraries it reports to (the
  metrics registry, the structured logger and the HTTP framework). Generic lemmas on lists and
  association lists that several components need are proved here once.
\<close>

section \<open>Collections of facts\<close>

text \<open>
  \<open>cache_laws\<close>: what the operations of the local cache keep of its invariant and how they
  change what a key is mapped to. \<open>go_map\<close>: association lists as Go maps.
\<close>

named_theorems cache_laws "invariant and lookup laws of the local cache"
named_theorems go_map "lookup in association lists used as Go maps"

section \<open>Bytes and strings\<close>

text \<open>
  A Go string is a sequence of bytes; it is an Isabelle \<open>string\<close> here, whose characters are
  8-bit. A byte slice is a list of 8-bit words.
\<close>

type_synonym byte = "8 word"
type_synonym bytes = "byte list"
type_synonym int64 = "64 word"
type_synonym uint64 = "64 word"

definition byte_of :: "char \<Rightarrow> byte" where
  "byte_of c = word_of_nat (of_char c)"

definition char_of_byte :: "byte \<Rightarrow> char" where
  "char_of_byte b = char_of (unat b)"

definition bytes_of :: "string \<Rightarrow> bytes" where
  "bytes_of s = map byte_of s"

definition string_of_bytes :: "bytes \<Rightarrow> string" where
  "string_of_bytes bs = map char_of_byte bs"

lemma char_of_byte_byte_of [simp]: "char_of_byte (byte_of c) = c"
  by (simp add: byte_of_def char_of_byte_def unat_of_nat)

lemma byte_of_char_of_byte [simp]: "byte_of (char_of_byte b) = b"
proof -
  have "unat b < 256" using unsigned_less [of b] by simp
  then show ?thesis by (simp add: byte_of_def char_of_byte_def)
qed

lemma inj_char_of_byte: "inj char_of_byte"
  by (rule inj_on_inverseI [where g = byte_of]) simp

lemma inj_byte_of: "inj byte_of"
  by (rule inj_on_inverseI [where g = char_of_byte]) simp

lemma string_of_bytes_bytes_of [simp]: "string_of_bytes (bytes_of s) = s"
  by (simp add: string_of_bytes_def bytes_of_def comp_def)

lemma bytes_of_string_of_bytes [simp]: "bytes_of (string_of_bytes bs) = bs"
  by (simp add: string_of_bytes_def bytes_of_def comp_def)

lemma length_bytes_of [simp]: "length (bytes_of s) = length s"
  by (simp add: bytes_of_def)

lemma length_string_of_bytes [simp]: "length (string_of_bytes bs) = length bs"
  by (simp add: string_of_bytes_def)

lemma bytes_of_append [simp]: "bytes_of (s @ t) = bytes_of s @ bytes_of t"
  by (simp add: bytes_of_def)

lemma string_of_bytes_append [simp]:
  "string_of_bytes (a @ b) = string_of_bytes a @ string_of_bytes b"
  by (simp add: string_of_bytes_def)

lemma string_of_bytes_inject [simp]: "string_of_bytes a = string_of_bytes b \<longleftrightarrow> a = b"
  by (metis bytes_of_string_of_bytes)

lemma bytes_of_inject [simp]: "bytes_of a = bytes_of b \<longleftrightarrow> a = b"
  by (metis string_of_bytes_bytes_of)

section \<open>Errors and panics\<close>

text \<open>
  Go error values: the three sentinels the service tests for, an error of some other library, an
  error made with \<open>fmt.Errorf("%w: %w", a, b)\<close> and one made with a text prefix and a single
  \<open>%w\<close>. \<open>errors_Is\<close> walks the wrapped errors as \<open>errors.Is\<close> does.
\<close>

datatype error =
    ErrUnavailable
  | RedisNil
  | ErrServerClosed
  | OtherErr string
  | WrapTwo error error
  | Prefixed string error

fun errors_Is :: "error \<Rightarrow> error \<Rightarrow> bool" where
  "errors_Is (WrapTwo a b) t = (WrapTwo a b = t \<or> errors_Is a t \<or> errors_Is b t)"
| "errors_Is (Prefixed s a) t = (Prefixed s a = t \<or> errors_Is a t)"
| "errors_Is e t = (e = t)"

fun error_text :: "error \<Rightarrow> string" where
  "error_text ErrUnavailable = ''store unavailable''"
| "error_text RedisNil = ''redis: nil''"
| "error_text ErrServerClosed = ''http: Server closed''"
| "error_text (OtherErr s) = s"
| "error_text (WrapTwo a b) = error_text a @ '': '' @ error_text b"
| "error_text (Prefixed s a) = s @ '': '' @ error_text a"

text \<open>
  A function that may panic returns a value and the new state, or stops with the state it had
  reached when the panic unwound it.
\<close>

datatype ('a, 's) exec = Returned 'a 's | Panicked 's

text \<open>The early return \<open>if err != nil { return nil, err }\<close>.\<close>

fun and_then :: "error + 'a \<Rightarrow> ('a \<Rightarrow> error + 'b) \<Rightarrow> error + 'b" where
  "and_then (Inl e) f = Inl e"
| "and_then (Inr a) f = f a"

lemma and_then_eq_Inr: "and_then r f = Inr b \<longleftrightarrow> (\<exists>a. r = Inr a \<and> f a = Inr b)"
  by (cases r) auto

section \<open>Association lists used as Go maps\<close>

text \<open>
  A Go map whose size is observed is an association list with distinct keys: assignment is
  \<open>AList.update\<close>, \<open>delete\<close> is \<open>AList.delete\<close>, a \<open>range\<close> loop that deletes
  entries is \<open>filter\<close>, and \<open>len\<close> is \<open>length\<close>.
\<close>

lemma map_of_filter_distinct:
  assumes "distinct (map fst al)"
  shows "map_of (filter keep al) key =
    (case map_of al key of Some entry \<Rightarrow> if keep (key, entry) then Some entry else None | None \<Rightarrow> None)"
  using assms by (induction al) (auto simp: map_of_eq_None_iff image_iff split: option.splits)

lemma distinct_map_fst_filter: "distinct (map fst xs) \<Longrightarrow> distinct (map fst (filter P xs))"
  by (induction xs) auto

lemmas alist_lookup [go_map] = AList.update_conv' AList.delete_conv' map_of_filter_distinct

lemmas alist_distinct = AList.distinct_update AList.distinct_delete distinct_map_fst_filter

lemma length_eq_card_fst: "distinct (map fst xs) \<Longrightarrow> length xs = card (fst ` set xs)"
  by (metis distinct_card length_map set_map)

end
