(* ===== verification/Go_Strings.thy ===== *)
theory Go_Strings
  imports Prelude
begin

text \<open>
  What the service uses of packages \<open>strings\<close> and \<open>strconv\<close>. On strings of ASCII bytes the
  functions are defined here as the library computes them; on other strings they consult the Unicode
  tables, which are a parameter (the record \<open>unicode_tables\<close>).
\<close>

record unicode_tables =
  u_ToUpper :: "string \<Rightarrow> string"
  u_TrimSpace :: "string \<Rightarrow> string"

definition is_ascii :: "char \<Rightarrow> bool" where
  "is_ascii c \<longleftrightarrow> (of_char c :: nat) < 128"

abbreviation ascii_string :: "string \<Rightarrow> bool" where
  "ascii_string s \<equiv> list_all is_ascii s"

definition ascii_upper :: "char \<Rightarrow> char" where
  "ascii_upper c =
     (let n = of_char c :: nat in if 97 \<le> n \<and> n \<le> 122 then char_of (n - 32) else c)"

definition strings_ToUpper :: "unicode_tables \<Rightarrow> string \<Rightarrow> string" where
  "strings_ToUpper U s = (if ascii_string s then map ascii_upper s else u_ToUpper U s)"

definition is_space :: "char \<Rightarrow> bool" where
  "is_space c \<longleftrightarrow> (let n = of_char c :: nat in (9 \<le> n \<and> n \<le> 13) \<or> n = 32)"

definition trim_ascii :: "string \<Rightarrow> string" where
  "trim_ascii s = rev (dropWhile is_space (rev (dropWhile is_space s)))"

definition strings_TrimSpace :: "unicode_tables \<Rightarrow> string \<Rightarrow> string" where
  "strings_TrimSpace U s = (if ascii_string s then trim_ascii s else u_TrimSpace U s)"

definition digit_char :: "nat \<Rightarrow> char" where
  "digit_char d = char_of (48 + d)"

fun Itoa :: "nat \<Rightarrow> string" where
  "Itoa n = (if n < 10 then [digit_char n] else Itoa (n div 10) @ [digit_char (n mod 10)])"

declare Itoa.simps [simp del]

lemma digit_char_eval:
  "digit_char 0 = CHR ''0''" "digit_char 1 = CHR ''1''" "digit_char (Suc 0) = CHR ''1''" "digit_char 2 = CHR ''2''"
  "digit_char 3 = CHR ''3''" "digit_char 4 = CHR ''4''" "digit_char 5 = CHR ''5''" "digit_char 6 = CHR ''6''"
  "digit_char 7 = CHR ''7''" "digit_char 8 = CHR ''8''" "digit_char 9 = CHR ''9''"
  by (simp_all add: digit_char_def char_of_def bit_Suc_0_iff)

lemma Itoa_eval:
  "n < 10 \<Longrightarrow> Itoa n = [digit_char n]"
  "10 \<le> n \<Longrightarrow> Itoa n = Itoa (n div 10) @ [digit_char (n mod 10)]"
  by (subst Itoa.simps, simp)+

definition is_digit :: "char \<Rightarrow> bool" where
  "is_digit c \<longleftrightarrow> 48 \<le> (of_char c :: nat) \<and> (of_char c :: nat) \<le> 57"

definition digit_val :: "char \<Rightarrow> nat" where
  "digit_val c = of_char c - 48"

lemma of_digit_char: "d < 10 \<Longrightarrow> (of_char (digit_char d) :: nat) = 48 + d"
  by (simp add: digit_char_def)

lemma digit_char_digit [simp]: "d < 10 \<Longrightarrow> is_digit (digit_char d)" "d < 10 \<Longrightarrow> digit_val (digit_char d) = d"
  by (simp_all add: is_digit_def digit_val_def of_digit_char)

lemma Itoa_digits: "list_all is_digit (Itoa n)"
  by (induction n rule: Itoa.induct) (subst Itoa.simps, simp)

lemma Itoa_nonempty: "Itoa n \<noteq> []"
  by (subst Itoa.simps) simp

lemma Itoa_value: "foldl (\<lambda>x c. 10 * x + digit_val c) 0 (Itoa n) = n"
  by (induction n rule: Itoa.induct) (subst Itoa.simps, simp)

lemma Itoa_inject: "Itoa m = Itoa n \<longleftrightarrow> m = n"
  by (metis Itoa_value)

lemma ascii_upper_idem [simp]: "ascii_upper (ascii_upper c) = ascii_upper c"
  by (auto simp: ascii_upper_def Let_def)

lemma ascii_upper_ascii: "is_ascii c \<Longrightarrow> is_ascii (ascii_upper c)"
  by (auto simp: ascii_upper_def is_ascii_def Let_def)

lemma ToUpper_ascii: "ascii_string s \<Longrightarrow> strings_ToUpper U s = map ascii_upper s"
  by (simp add: strings_ToUpper_def)

lemma ascii_ToUpper: "ascii_string s \<Longrightarrow> ascii_string (strings_ToUpper U s)"
  by (simp add: strings_ToUpper_def list_all_iff ascii_upper_ascii)

lemma ToUpper_idem: "ascii_string s \<Longrightarrow> strings_ToUpper U (strings_ToUpper U s) = strings_ToUpper U s"
  by (simp add: ascii_ToUpper ToUpper_ascii [of "map ascii_upper s"] ToUpper_ascii comp_def
      list_all_iff ascii_upper_ascii)

lemma set_trim_ascii: "set (trim_ascii s) \<subseteq> set s"
  by (auto simp: trim_ascii_def dest!: set_dropWhileD)

lemma ascii_TrimSpace: "ascii_string s \<Longrightarrow> ascii_string (strings_TrimSpace U s)"
  using set_trim_ascii [of s] by (auto simp: strings_TrimSpace_def list_all_iff)

section \<open>path/filepath\<close>

text \<open>
  \<open>filepath.Clean\<close> and \<open>filepath.Dir\<close> on Unix: empty and \<open>.\<close> elements go,
  \<open>..\<close> removes the element before it if there is one, and at the root it goes too.
\<close>

fun split_slash :: "string \<Rightarrow> string list" where
  "split_slash [] = [[]]"
| "split_slash (c # cs) =
     (if c = CHR ''/'' then [] # split_slash cs
      else case split_slash cs of [] \<Rightarrow> [[c]] | x # xs \<Rightarrow> (c # x) # xs)"

fun clean_elems :: "bool \<Rightarrow> string list \<Rightarrow> string list \<Rightarrow> string list" where
  "clean_elems rooted acc [] = rev acc"
| "clean_elems rooted acc (e # es) =
     (if e = [] \<or> e = ''.'' then clean_elems rooted acc es
      else if e = ''..'' then
        (case acc of
           [] \<Rightarrow> clean_elems rooted (if rooted then [] else [''..'']) es
         | a # as \<Rightarrow> if a = ''..'' then clean_elems rooted (''..'' # acc) es else clean_elems rooted as es)
      else clean_elems rooted (e # acc) es)"

fun join_slash :: "string list \<Rightarrow> string" where
  "join_slash [] = []"
| "join_slash [e] = e"
| "join_slash (e # es) = e @ ''/'' @ join_slash es"

definition filepath_Clean :: "string \<Rightarrow> string" where
  "filepath_Clean p =
     (let rooted = (p \<noteq> [] \<and> hd p = CHR ''/'');
          s = (if rooted then ''/'' else []) @ join_slash (clean_elems rooted [] (split_slash p))
      in if s = [] then ''.'' else s)"

definition filepath_Dir :: "string \<Rightarrow> string" where
  "filepath_Dir p = filepath_Clean (rev (dropWhile (\<lambda>c. c \<noteq> CHR ''/'') (rev p)))"

lemma filepath_Dir_default: "filepath_Dir ''log/app.log'' = ''log'' \<and> filepath_Dir ''app.log'' = ''.'' \<and>
    filepath_Dir ''/var/../log//x/app.log'' = ''/log/x''"
  by (simp add: filepath_Dir_def filepath_Clean_def)

end
