(* ===== verification/Go_Time.thy ===== *)
theory Go_Time
  imports Go_Strings
begin

text \<open>
  What the service uses of package \<open>time\<close>. A \<open>time.Time\<close> is an instant, in nanoseconds
  since the Unix epoch, as an integer: its range is far wider than 64 bits. A
  \<open>time.Duration\<close> is a signed 64-bit count of nanoseconds, and \<open>UnixNano\<close> returns a
  signed 64-bit value that wraps outside the years it can represent.
\<close>

type_synonym time = int
type_synonym duration = int64

definition time_Add :: "time \<Rightarrow> duration \<Rightarrow> time" where
  "time_Add t d = t + sint d"

definition UnixNano :: "time \<Rightarrow> int64" where
  "UnixNano t = word_of_int t"

text \<open>The value of a signed 64-bit reading, as the comparison operators of Go see it.\<close>

abbreviation unix_ns :: "time \<Rightarrow> int" where
  "unix_ns t \<equiv> sint (UnixNano t)"

definition representable :: "time \<Rightarrow> bool" where
  "representable t \<longleftrightarrow> - (2 ^ 63) \<le> t \<and> t < 2 ^ 63"

lemma unix_ns_representable: "representable t \<Longrightarrow> unix_ns t = t"
  by (simp add: representable_def UnixNano_def signed_of_int signed_take_bit_int_eq_self)

lemma unix_ns_wraps: "unix_ns t = (t + 2 ^ 63) mod 2 ^ 64 - 2 ^ 63"
  by (simp add: UnixNano_def signed_of_int signed_take_bit_eq_take_bit_shift take_bit_eq_mod)

lemma unix_ns_le: "- (2 ^ 63) \<le> t \<Longrightarrow> unix_ns t \<le> t"
  using zmod_le_nonneg_dividend [of "t + 2 ^ 63" "2 ^ 64"] unfolding unix_ns_wraps by linarith

definition Millisecond :: duration where "Millisecond = 1000000"
definition Second :: duration where "Second = 1000000000"

section \<open>time.ParseDuration\<close>

text \<open>
  The parser of durations such as \<open>10s\<close> or \<open>1m30s\<close>. Unsigned 64-bit values are natural
  numbers, with the library's overflow tests written out and the sum of the parts reduced modulo
  \<open>2 ^ 64\<close>. The nanoseconds of a decimal fraction are computed by the library in floating point;
  that one expression is the parameter \<open>frac\<close>, of the fraction's digits, the unit and the
  scale.
\<close>

datatype dur_error = InvalidDuration | MissingUnit | UnknownUnit string

type_synonym frac_ns = "nat \<Rightarrow> nat \<Rightarrow> nat \<Rightarrow> nat"

fun leadingInt :: "nat \<Rightarrow> string \<Rightarrow> (nat \<times> string) option" where
  "leadingInt x [] = Some (x, [])"
| "leadingInt x (c # cs) =
     (if \<not> is_digit c then Some (x, c # cs)
      else if x > 2 ^ 63 div 10 then None
      else if x * 10 + digit_val c > 2 ^ 63 then None
      else leadingInt (x * 10 + digit_val c) cs)"

fun leadingFraction :: "nat \<Rightarrow> nat \<Rightarrow> bool \<Rightarrow> string \<Rightarrow> nat \<times> nat \<times> string" where
  "leadingFraction x scale overflow [] = (x, scale, [])"
| "leadingFraction x scale overflow (c # cs) =
     (if \<not> is_digit c then (x, scale, c # cs)
      else if overflow then leadingFraction x scale overflow cs
      else if x > (2 ^ 63 - 1) div 10 then leadingFraction x scale True cs
      else if x * 10 + digit_val c > 2 ^ 63 then leadingFraction x scale True cs
      else leadingFraction (x * 10 + digit_val c) (scale * 10) overflow cs)"

definition unitMap :: "(string \<times> nat) list" where
  "unitMap =
     [(''ns'', 1), (''us'', 1000), ([CHR 0xC2, CHR 0xB5, CHR ''s''], 1000),
      ([CHR 0xCE, CHR 0xBC, CHR ''s''], 1000), (''ms'', 1000000), (''s'', 1000000000),
      (''m'', 60000000000), (''h'', 3600000000000)]"

definition unit_char :: "char \<Rightarrow> bool" where
  "unit_char c \<longleftrightarrow> c \<noteq> CHR ''.'' \<and> \<not> is_digit c"

text \<open>One turn of the loop: the value in nanoseconds of the next number and unit, and the rest.\<close>

definition parse_part :: "frac_ns \<Rightarrow> string \<Rightarrow> dur_error + nat \<times> string" where
  "parse_part frac s =
     (if \<not> (hd s = CHR ''.'' \<or> is_digit (hd s)) then Inl InvalidDuration
      else case leadingInt 0 s of
        None \<Rightarrow> Inl InvalidDuration
      | Some (v, s1) \<Rightarrow>
          (let pre = (length s \<noteq> length s1);
               (f, scale, s2) =
                 (if s1 \<noteq> [] \<and> hd s1 = CHR ''.'' then leadingFraction 0 1 False (tl s1) else (0, 1, s1));
               post = (s1 \<noteq> [] \<and> hd s1 = CHR ''.'' \<and> length (tl s1) \<noteq> length s2);
               u = takeWhile unit_char s2;
               s3 = dropWhile unit_char s2
           in if \<not> pre \<and> \<not> post then Inl InvalidDuration
              else if u = [] then Inl MissingUnit
              else case map_of unitMap u of
                None \<Rightarrow> Inl (UnknownUnit u)
              | Some unit \<Rightarrow>
                  if v > 2 ^ 63 div unit then Inl InvalidDuration
                  else if f > 0 then
                    (let v' = (v * unit + frac f unit scale) mod 2 ^ 64
                     in if v' > 2 ^ 63 then Inl InvalidDuration else Inr (v', s3))
                  else Inr (v * unit, s3)))"

lemma leadingInt_length: "leadingInt x s = Some (v, s') \<Longrightarrow> length s' \<le> length s"
  by (induction x s rule: leadingInt.induct) (auto split: if_splits)

lemma leadingFraction_length: "leadingFraction x sc b s = (f, sc', s') \<Longrightarrow> length s' \<le> length s"
  by (induction x sc b s rule: leadingFraction.induct) (auto split: if_splits)

lemma parse_part_shorter:
  assumes "parse_part frac s = Inr (v, s3)"
  shows "length s3 < length s"
proof -
  obtain v0 s1 where s1: "leadingInt 0 s = Some (v0, s1)"
    using assms by (auto simp: parse_part_def split: if_splits option.splits)
  define t where "t = (if s1 \<noteq> [] \<and> hd s1 = CHR ''.'' then leadingFraction 0 1 False (tl s1) else (0, 1, s1))"
  obtain f sc s2 where t: "t = (f, sc, s2)" by (cases t) auto
  have "length s2 \<le> length s1"
    using t leadingFraction_length [of 0 1 False "tl s1" f sc s2] unfolding t_def
    by (auto split: if_splits dest: le_trans)
  moreover have "takeWhile unit_char s2 \<noteq> []" "s3 = dropWhile unit_char s2"
    using assms s1 t [unfolded t_def]
    by (auto simp: parse_part_def Let_def split: if_splits option.splits)
  moreover have "length s2 = length (takeWhile unit_char s2) + length (dropWhile unit_char s2)"
    by (metis length_append takeWhile_dropWhile_id)
  ultimately show ?thesis using leadingInt_length [OF s1] by (cases "takeWhile unit_char s2") auto
qed

function parse_parts :: "frac_ns \<Rightarrow> nat \<Rightarrow> string \<Rightarrow> dur_error + nat" where
  "parse_parts frac d s =
     (if s = [] then Inr d
      else case parse_part frac s of
        Inl e \<Rightarrow> Inl e
      | Inr (v, s') \<Rightarrow>
          (let d' = (d + v) mod 2 ^ 64
           in if d' > 2 ^ 63 then Inl InvalidDuration else parse_parts frac d' s'))"
  by pat_completeness auto
termination
  by (relation "measure (\<lambda>(frac, d, s). length s)") (auto dest: parse_part_shorter)

declare parse_parts.simps [simp del]

definition ParseDuration :: "frac_ns \<Rightarrow> string \<Rightarrow> dur_error + duration" where
  "ParseDuration frac orig =
     (let neg = (orig \<noteq> [] \<and> hd orig = CHR ''-'');
          s = (if orig \<noteq> [] \<and> (hd orig = CHR ''-'' \<or> hd orig = CHR ''+'') then tl orig else orig)
      in if s = ''0'' then Inr 0
         else if s = [] then Inl InvalidDuration
         else case parse_parts frac 0 s of
           Inl e \<Rightarrow> Inl e
         | Inr d \<Rightarrow>
             if neg then Inr (- word_of_nat d)
             else if d > 2 ^ 63 - 1 then Inl InvalidDuration
             else Inr (word_of_nat d))"

lemma parse_10s: "ParseDuration frac ''10s'' = Inr 10000000000"
  by (simp add: ParseDuration_def parse_parts.simps parse_part_def is_digit_def digit_val_def
      unit_char_def unitMap_def)

lemma foldl_digits_mono: "(x :: nat) \<le> foldl (\<lambda>x c. 10 * x + digit_val c) x ds"
proof (induction ds arbitrary: x)
  case (Cons c ds)
  have "x \<le> 10 * x + digit_val c" by simp
  also have "\<dots> \<le> foldl (\<lambda>x c. 10 * x + digit_val c) (10 * x + digit_val c) ds" by (rule Cons)
  finally show ?case by simp
qed simp

lemma leadingInt_digits:
  assumes "list_all is_digit ds" and "rest = [] \<or> \<not> is_digit (hd rest)"
    and "foldl (\<lambda>x c. 10 * x + digit_val c) x ds \<le> 2 ^ 63"
  shows "leadingInt x (ds @ rest) = Some (foldl (\<lambda>x c. 10 * x + digit_val c) x ds, rest)"
  using assms
proof (induction ds arbitrary: x)
  case Nil
  then show ?case by (cases rest) auto
next
  case (Cons c ds)
  have le: "10 * x + digit_val c \<le> 2 ^ 63"
    using foldl_digits_mono [of "10 * x + digit_val c" ds] Cons.prems(3) by simp
  then have "\<not> x > 2 ^ 63 div 10" by simp
  with le Cons show ?case by (simp add: mult.commute)
qed

lemma unitMap_unit:
  assumes "map_of unitMap u = Some unit"
  shows "u \<noteq> [] \<and> list_all unit_char u \<and> 0 < unit"
  using map_of_SomeD [OF assms]
  by (auto simp: unitMap_def unit_char_def is_digit_def)

lemma parse_part_Itoa:
  assumes "map_of unitMap u = Some unit" and "n * unit \<le> 2 ^ 63"
  shows "parse_part frac (Itoa n @ u) = Inr (n * unit, [])"
proof -
  have u: "u \<noteq> []" "list_all unit_char u" "0 < unit" using unitMap_unit [OF assms(1)] by auto
  then have hd_u: "unit_char (hd u)" by (cases u) auto
  have "n \<le> n * unit" using u(3) by simp
  then have n: "n \<le> 2 ^ 63" using assms(2) by (rule le_trans)
  have "is_digit (hd (Itoa n @ u))"
    using Itoa_digits [of n] Itoa_nonempty [of n] by (cases "Itoa n") auto
  moreover have "leadingInt 0 (Itoa n @ u) = Some (n, u)"
    using leadingInt_digits [OF Itoa_digits, of u 0 n] n hd_u by (simp add: Itoa_value unit_char_def)
  moreover have tw: "takeWhile unit_char u = u" "dropWhile unit_char u = []"
    using u(2) by (simp_all add: list_all_iff)
  moreover have "n \<le> 2 ^ 63 div unit"
    using assms(2) u(3) by (simp add: less_eq_div_iff_mult_less_eq)
  moreover have "hd u \<noteq> CHR ''.''" using hd_u by (simp add: unit_char_def)
  ultimately show ?thesis
    using assms(1) u Itoa_nonempty [of n] by (simp add: parse_part_def Let_def tw)
qed

text \<open>
  Reading back a printed duration. For every unit the parser knows and every whole number of
  units that fits in 63 bits, parsing the decimal digits followed by the unit gives the duration,
  whatever the floating-point treatment of fractions.
\<close>

lemma ParseDuration_Itoa_unit:
  assumes "map_of unitMap u = Some unit" and "n * unit < 2 ^ 63"
  shows "\<exists>d. ParseDuration frac (Itoa n @ u) = Inr d \<and> sint d = int (n * unit)"
proof -
  let ?s = "Itoa n @ u"
  have u: "u \<noteq> []" using unitMap_unit [OF assms(1)] by auto
  have "is_digit (hd ?s)"
    using Itoa_digits [of n] Itoa_nonempty [of n] by (cases "Itoa n") auto
  then have hd: "hd ?s \<noteq> CHR ''-''" "hd ?s \<noteq> CHR ''+''" by (auto simp: is_digit_def)
  have "2 \<le> length ?s" using u Itoa_nonempty [of n] by (cases "Itoa n"; cases u) auto
  moreover have "?s = ''0'' \<Longrightarrow> length ?s = 1" by (simp only:) simp
  ultimately have ne: "?s \<noteq> ''0''" "?s \<noteq> []" by fastforce+
  have "parse_part frac ?s = Inr (n * unit, [])"
    using assms by (intro parse_part_Itoa) simp_all
  then have "parse_parts frac 0 ?s = Inr (n * unit)"
    using assms(2) u by (simp add: parse_parts.simps [of frac 0 ?s] parse_parts.simps [of frac _ "[]"])
  then have "ParseDuration frac ?s = Inr (word_of_nat (n * unit))"
    using hd ne assms(2) by (simp add: ParseDuration_def)
  moreover have "sint (word_of_nat (n * unit) :: duration) = int (n * unit)"
  proof -
    have "(word_of_nat (n * unit) :: duration) = UnixNano (int (n * unit))"
      by (simp add: UnixNano_def)
    moreover have "int (n * unit) < 2 ^ 63"
      using assms(2) by (metis of_nat_less_iff of_nat_numeral of_nat_power)
    then have "representable (int (n * unit))"
      unfolding representable_def by (metis neg_le_0_iff_le of_nat_0_le_iff order_trans zero_le_numeral zero_le_power)
    ultimately show ?thesis using unix_ns_representable by metis
  qed
  ultimately show ?thesis by blast
qed

section \<open>Duration.String\<close>

text \<open>
  The printed form of a duration, as in the log line of the start-up: hours, minutes and seconds with
  a fraction, or one smaller unit below a second. A fraction has no trailing zeros.
\<close>

definition fmtFrac :: "nat \<Rightarrow> nat \<Rightarrow> string" where
  "fmtFrac v prec =
     (let ds = Itoa (v mod 10 ^ prec);
          padded = replicate (prec - length ds) (CHR ''0'') @ ds;
          digits = rev (dropWhile (\<lambda>c. c = CHR ''0'') (rev padded))
      in if digits = [] then [] else CHR ''.'' # digits)"

definition fmt_unit :: "nat \<Rightarrow> nat \<Rightarrow> string \<Rightarrow> string" where
  "fmt_unit u prec name = Itoa (u div 10 ^ prec) @ fmtFrac u prec @ name"

definition Duration_String :: "duration \<Rightarrow> string" where
  "Duration_String d =
     (let neg = sint d < 0;
          u = nat \<bar>sint d\<bar>;
          secs = u div 10 ^ 9;
          body =
            (if u = 0 then ''0s''
             else if u < 10 ^ 3 then fmt_unit u 0 ''ns''
             else if u < 10 ^ 6 then fmt_unit u 3 [CHR 0xC2, CHR 0xB5, CHR ''s'']
             else if u < 10 ^ 9 then fmt_unit u 6 ''ms''
             else
               (if secs div 3600 > 0 then Itoa (secs div 3600) @ ''h'' else []) @
               (if secs div 60 > 0 then Itoa (secs div 60 mod 60) @ ''m'' else []) @
               Itoa (secs mod 60) @ fmtFrac u 9 @ ''s'')
      in (if u \<noteq> 0 \<and> neg then ''-'' else []) @ body)"

lemma Duration_String_examples:
  "Duration_String 10000000000 = ''10s''" "Duration_String 500000000 = ''500ms''"
  "Duration_String 1500000000 = ''1.5s''" "Duration_String 5400000000000 = ''1h30m0s''"
  by (simp_all add: Duration_String_def fmt_unit_def fmtFrac_def Itoa_eval digit_char_eval Let_def)

end
