(* ===== verification/Config.thy ===== *)
theory Config
  imports Go_Time
begin

text \<open>
  The package \<open>internal/config\<close>: the configuration record, \<open>Load\<close> with its defaults,
  duration parsing and normalisation of the excluded methods, \<open>validate\<close>,
  \<open>BuildExcludeSet\<close> and \<open>IsMethodExcluded\<close>. The configuration library Viper is a parameter:
  a record of the calls \<open>Load\<close> makes on it.
\<close>

section \<open>The configuration library, as parameters\<close>

datatype cfg_value = CStr string | CBool bool | CInt int | CStrs "string list"

type_synonym cfg_defaults = "(string \<times> cfg_value) list"

datatype cfg_source = ConfigFile string | SearchWorkDir string string

datatype read_result = ReadOk | FileNotFound | NotExist error | ReadFailed error

record viper =
  vp_ReadInConfig :: "cfg_source \<Rightarrow> read_result"
  vp_GetString :: "cfg_defaults \<Rightarrow> cfg_source \<Rightarrow> string \<Rightarrow> string"
  vp_GetBool :: "cfg_defaults \<Rightarrow> cfg_source \<Rightarrow> string \<Rightarrow> bool"
  vp_GetInt :: "cfg_defaults \<Rightarrow> cfg_source \<Rightarrow> string \<Rightarrow> int"
  vp_GetInt64 :: "cfg_defaults \<Rightarrow> cfg_source \<Rightarrow> string \<Rightarrow> int"
  vp_GetStringSlice :: "cfg_defaults \<Rightarrow> cfg_source \<Rightarrow> string \<Rightarrow> string list"

text \<open>
  Documented behaviour of the library when no file was read: a key that has a default and nothing
  else has the default's value.
\<close>

definition viper_uses_defaults :: "viper \<Rightarrow> cfg_source \<Rightarrow> bool" where
  "viper_uses_defaults V src \<longleftrightarrow>
     (\<forall>defs key.
        (\<forall>s. map_of defs key = Some (CStr s) \<longrightarrow> vp_GetString V defs src key = s) \<and>
        (\<forall>b. map_of defs key = Some (CBool b) \<longrightarrow> vp_GetBool V defs src key = b) \<and>
        (\<forall>i. map_of defs key = Some (CInt i) \<longrightarrow>
           vp_GetInt V defs src key = i \<and> vp_GetInt64 V defs src key = i) \<and>
        (\<forall>l. map_of defs key = Some (CStrs l) \<longrightarrow> vp_GetStringSlice V defs src key = l))"

text \<open>The parts of the standard library that are parameters: Unicode tables and floating point.\<close>

record golib =
  go_unicode :: unicode_tables
  go_frac :: frac_ns

section \<open>The configuration\<close>

record Config =
  ListenAddr :: string
  ShutdownTimeout :: duration
  LogLevel :: string
  TLSEnabled :: bool
  TLSCertFile :: string
  TLSKeyFile :: string
  TLSMinVersion :: string
  LogFile :: string
  LogMaxSizeMB :: int
  LogMaxBackups :: int
  LogMaxAgeDays :: int
  LogCompress :: bool
  RedisAddr :: string
  RedisPassword :: string
  RedisDB :: int
  RedisDialTimeout :: duration
  RedisReadTimeout :: duration
  RedisWriteTimeout :: duration
  RedisPoolSize :: int
  RedisMinIdle :: int
  DedupWindow :: duration
  MaxBodyBytes :: int
  FailOpen :: bool
  ExcludeMethods :: "string list"
  excludeSet :: "string \<Rightarrow> unit option"
  XAccelRedirectPrefix :: string
  LocalCacheEnabled :: bool
  GOGC :: int
  StoreTimeout :: duration
  DisableRequestLogging :: bool

definition config_defaults :: cfg_defaults where
  "config_defaults =
    [(''server.listen_addr'', CStr '':8081''),
     (''server.log_level'', CStr ''info''),
     (''server.shutdown_timeout'', CStr ''10s''),
     (''server.tls_enabled'', CBool False),
     (''server.tls_cert_file'', CStr []),
     (''server.tls_key_file'', CStr []),
     (''server.tls_min_version'', CStr ''1.2''),
     (''redis.addr'', CStr ''localhost:6379''),
     (''redis.password'', CStr []),
     (''redis.db'', CInt 0),
     (''redis.dial_timeout'', CStr ''2s''),
     (''redis.read_timeout'', CStr ''200ms''),
     (''redis.write_timeout'', CStr ''200ms''),
     (''performance.local_cache'', CBool True),
     (''performance.gogc'', CInt 50),
     (''performance.store_timeout'', CStr ''500ms''),
     (''performance.disable_request_logging'', CBool False),
     (''redis.pool_size'', CInt 100),
     (''redis.min_idle'', CInt 20),
     (''log.file'', CStr ''log/app.log''),
     (''log.max_size_mb'', CInt 50),
     (''log.max_backups'', CInt 5),
     (''log.max_age_days'', CInt 30),
     (''log.compress'', CBool True),
     (''dedup.window'', CStr ''10s''),
     (''dedup.max_body_bytes'', CInt 65536),
     (''dedup.fail_open'', CBool True),
     (''dedup.exclude_methods'', CStrs [''GET'', ''HEAD'', ''OPTIONS'']),
     (''proxy.x_accel_redirect_prefix'', CStr ''/internal/upstream'')]"

definition BuildExcludeSet :: "unicode_tables \<Rightarrow> Config \<Rightarrow> Config" where
  "BuildExcludeSet U c =
     c\<lparr>excludeSet := foldl (\<lambda>s m. s(strings_ToUpper U m \<mapsto> ())) Map.empty (ExcludeMethods c)\<rparr>"

definition IsMethodExcluded :: "unicode_tables \<Rightarrow> Config \<Rightarrow> string \<Rightarrow> bool" where
  "IsMethodExcluded U c method = (excludeSet c (strings_ToUpper U method) \<noteq> None)"

text \<open>
  \<open>validate\<close> returns the first check that fails. The rendering of the rejected value at the end
  of a message is left out.
\<close>

definition validate :: "unicode_tables \<Rightarrow> Config \<Rightarrow> error option" where
  "validate U c =
     (if ListenAddr c = [] then Some (OtherErr ''server.listen_addr must not be empty'')
      else if TLSEnabled c \<and> strings_TrimSpace U (TLSCertFile c) = [] then
        Some (OtherErr ''server.tls_cert_file must not be empty when server.tls_enabled=true'')
      else if TLSEnabled c \<and> strings_TrimSpace U (TLSKeyFile c) = [] then
        Some (OtherErr ''server.tls_key_file must not be empty when server.tls_enabled=true'')
      else if strings_TrimSpace U (TLSMinVersion c) = [] then
        Some (OtherErr ''server.tls_min_version must not be empty'')
      else if TLSMinVersion c \<noteq> ''1.2'' \<and> TLSMinVersion c \<noteq> ''1.3'' then
        Some (OtherErr ''server.tls_min_version must be one of: 1.2, 1.3'')
      else if RedisAddr c = [] then Some (OtherErr ''redis.addr must not be empty'')
      else if sint (DedupWindow c) \<le> 0 then Some (OtherErr ''dedup.window must be a positive duration'')
      else if MaxBodyBytes c \<le> 0 then Some (OtherErr ''dedup.max_body_bytes must be positive'')
      else if sint (ShutdownTimeout c) \<le> 0 then Some (OtherErr ''server.shutdown_timeout must be positive'')
      else if RedisPoolSize c \<le> 0 then Some (OtherErr ''redis.pool_size must be positive'')
      else if sint (StoreTimeout c) \<le> 0 then Some (OtherErr ''performance.store_timeout must be positive'')
      else if strings_TrimSpace U (XAccelRedirectPrefix c) = [] then
        Some (OtherErr ''proxy.x_accel_redirect_prefix must not be empty'')
      else None)"

fun dur_error_text :: "dur_error \<Rightarrow> string" where
  "dur_error_text InvalidDuration = ''time: invalid duration''"
| "dur_error_text MissingUnit = ''time: missing unit in duration''"
| "dur_error_text (UnknownUnit u) = ''time: unknown unit '' @ u"

text \<open>A duration setting: the string under the key, parsed; an error names the key.\<close>

definition load_duration :: "golib \<Rightarrow> (string \<Rightarrow> string) \<Rightarrow> string \<Rightarrow> error + duration" where
  "load_duration G get key =
     (case ParseDuration (go_frac G) (get key) of
        Inl e \<Rightarrow> Inl (Prefixed (''invalid '' @ key) (OtherErr (dur_error_text e)))
      | Inr d \<Rightarrow> Inr d)"

fun normalise_methods :: "unicode_tables \<Rightarrow> string list \<Rightarrow> string list" where
  "normalise_methods U [] = []"
| "normalise_methods U (m # ms) =
     (let t = strings_TrimSpace U (strings_ToUpper U m)
      in if t \<noteq> [] then t # normalise_methods U ms else normalise_methods U ms)"

definition config_source :: "string list \<Rightarrow> cfg_source" where
  "config_source configPath =
     (if configPath \<noteq> [] \<and> hd configPath \<noteq> [] then ConfigFile (hd configPath)
      else SearchWorkDir ''config'' ''json'')"

definition read_config :: "viper \<Rightarrow> cfg_source \<Rightarrow> error option" where
  "read_config V src =
     (case vp_ReadInConfig V src of
        ReadOk \<Rightarrow> None
      | FileNotFound \<Rightarrow> None
      | NotExist e \<Rightarrow> None
      | ReadFailed e \<Rightarrow> Some (Prefixed ''reading config file'' e))"

definition Load :: "golib \<Rightarrow> viper \<Rightarrow> string list \<Rightarrow> error + Config" where
  "Load G V configPath =
    (let U = go_unicode G;
         src = config_source configPath;
         str = vp_GetString V config_defaults src;
         bool = vp_GetBool V config_defaults src;
         num = vp_GetInt V config_defaults src
     in case read_config V src of Some e \<Rightarrow> Inl e | None \<Rightarrow>
        and_then (load_duration G str ''server.shutdown_timeout'') (\<lambda>shutdownTimeout.
        and_then (load_duration G str ''redis.dial_timeout'') (\<lambda>dialTimeout.
        and_then (load_duration G str ''redis.read_timeout'') (\<lambda>readTimeout.
        and_then (load_duration G str ''redis.write_timeout'') (\<lambda>writeTimeout.
        and_then (load_duration G str ''dedup.window'') (\<lambda>dedupWindow.
        and_then (load_duration G str ''performance.store_timeout'') (\<lambda>storeTimeout.
        let methods = normalise_methods U (vp_GetStringSlice V config_defaults src ''dedup.exclude_methods'');
            cfg = \<lparr>ListenAddr = str ''server.listen_addr'',
                   ShutdownTimeout = shutdownTimeout,
                   LogLevel = str ''server.log_level'',
                   TLSEnabled = bool ''server.tls_enabled'',
                   TLSCertFile = str ''server.tls_cert_file'',
                   TLSKeyFile = str ''server.tls_key_file'',
                   TLSMinVersion = str ''server.tls_min_version'',
                   LogFile = str ''log.file'',
                   LogMaxSizeMB = num ''log.max_size_mb'',
                   LogMaxBackups = num ''log.max_backups'',
                   LogMaxAgeDays = num ''log.max_age_days'',
                   LogCompress = bool ''log.compress'',
                   RedisAddr = str ''redis.addr'',
                   RedisPassword = str ''redis.password'',
                   RedisDB = num ''redis.db'',
                   RedisDialTimeout = dialTimeout,
                   RedisReadTimeout = readTimeout,
                   RedisWriteTimeout = writeTimeout,
                   RedisPoolSize = num ''redis.pool_size'',
                   RedisMinIdle = num ''redis.min_idle'',
                   DedupWindow = dedupWindow,
                   MaxBodyBytes = vp_GetInt64 V config_defaults src ''dedup.max_body_bytes'',
                   FailOpen = bool ''dedup.fail_open'',
                   ExcludeMethods = methods,
                   excludeSet = Map.empty,
                   XAccelRedirectPrefix = str ''proxy.x_accel_redirect_prefix'',
                   LocalCacheEnabled = bool ''performance.local_cache'',
                   GOGC = num ''performance.gogc'',
                   StoreTimeout = storeTimeout,
                   DisableRequestLogging = bool ''performance.disable_request_logging''\<rparr>;
            cfg1 = BuildExcludeSet U cfg
        in case validate U cfg1 of
             Some e \<Rightarrow> Inl (Prefixed ''invalid configuration'' e)
           | None \<Rightarrow> Inr cfg1)))))))"

section \<open>Helper lemmas\<close>

lemma validate_None_iff:
  "validate U c = None \<longleftrightarrow>
     ListenAddr c \<noteq> [] \<and>
     (TLSEnabled c \<longrightarrow> strings_TrimSpace U (TLSCertFile c) \<noteq> [] \<and> strings_TrimSpace U (TLSKeyFile c) \<noteq> []) \<and>
     TLSMinVersion c \<in> {''1.2'', ''1.3''} \<and>
     RedisAddr c \<noteq> [] \<and> 0 < sint (DedupWindow c) \<and> 0 < MaxBodyBytes c \<and>
     0 < sint (ShutdownTimeout c) \<and> 0 < RedisPoolSize c \<and> 0 < sint (StoreTimeout c) \<and>
     strings_TrimSpace U (XAccelRedirectPrefix c) \<noteq> []"
proof -
  have "strings_TrimSpace U v \<noteq> []" if "v \<in> {''1.2'', ''1.3''}" for v
    using that by (auto simp: strings_TrimSpace_def is_ascii_def trim_ascii_def is_space_def)
  then show ?thesis by (auto simp: validate_def not_le)
qed

lemma foldl_map_upd_None:
  "foldl (\<lambda>s m. s(f m \<mapsto> ())) S ms k \<noteq> None \<longleftrightarrow> S k \<noteq> None \<or> k \<in> f ` set ms"
  by (induction ms arbitrary: S) auto

lemma IsMethodExcluded_Build:
  "IsMethodExcluded U (BuildExcludeSet U c) m \<longleftrightarrow>
     strings_ToUpper U m \<in> strings_ToUpper U ` set (ExcludeMethods c)"
  using foldl_map_upd_None [of "strings_ToUpper U" Map.empty "ExcludeMethods c" "strings_ToUpper U m"]
  by (simp add: IsMethodExcluded_def BuildExcludeSet_def)

lemma set_normalise_methods:
  "set (normalise_methods U ms) = {t. t \<noteq> [] \<and> (\<exists>m \<in> set ms. t = strings_TrimSpace U (strings_ToUpper U m))}"
  by (induction ms) (auto simp: Let_def)

lemma trim_upper_is_upper:
  assumes "ascii_string m"
  shows "strings_ToUpper U (strings_TrimSpace U (strings_ToUpper U m)) = strings_TrimSpace U (strings_ToUpper U m)"
proof -
  have u: "ascii_string (strings_ToUpper U m)" by (rule ascii_ToUpper [OF assms])
  have "map ascii_upper (trim_ascii (map ascii_upper m)) = trim_ascii (map ascii_upper m)"
    by (rule map_idI) (use set_trim_ascii [of "map ascii_upper m"] in auto)
  then show ?thesis
    using assms u ascii_TrimSpace [OF u] by (simp add: ToUpper_ascii strings_TrimSpace_def)
qed

text \<open>What \<open>Load\<close> guarantees of a configuration it returns.\<close>

lemma Load_Inr:
  assumes "Load G V path = Inr c"
  defines "U \<equiv> go_unicode G" and "src \<equiv> config_source path"
  shows "validate U c = None"
    and "read_config V src = None"
    and "ParseDuration (go_frac G) (vp_GetString V config_defaults src ''dedup.window'') = Inr (DedupWindow c)"
    and "ExcludeMethods c =
      normalise_methods U (vp_GetStringSlice V config_defaults src ''dedup.exclude_methods'')"
    and "BuildExcludeSet U c = c"
    and "FailOpen c = vp_GetBool V config_defaults src ''dedup.fail_open''"
    and "XAccelRedirectPrefix c = vp_GetString V config_defaults src ''proxy.x_accel_redirect_prefix''"
  using assms(1)
  by (auto simp: Load_def Let_def and_then_eq_Inr U_def src_def load_duration_def BuildExcludeSet_def
      split: option.splits sum.splits)

section \<open>Defaults\<close>

definition default_config :: Config where
  "default_config =
    \<lparr>ListenAddr = '':8081'', ShutdownTimeout = 10000000000, LogLevel = ''info'', TLSEnabled = False,
     TLSCertFile = [], TLSKeyFile = [], TLSMinVersion = ''1.2'', LogFile = ''log/app.log'',
     LogMaxSizeMB = 50, LogMaxBackups = 5, LogMaxAgeDays = 30, LogCompress = True,
     RedisAddr = ''localhost:6379'', RedisPassword = [], RedisDB = 0, RedisDialTimeout = 2000000000,
     RedisReadTimeout = 200000000, RedisWriteTimeout = 200000000, RedisPoolSize = 100, RedisMinIdle = 20,
     DedupWindow = 10000000000, MaxBodyBytes = 65536, FailOpen = True,
     ExcludeMethods = [''GET'', ''HEAD'', ''OPTIONS''],
     excludeSet = [''GET'' \<mapsto> (), ''HEAD'' \<mapsto> (), ''OPTIONS'' \<mapsto> ()],
     XAccelRedirectPrefix = ''/internal/upstream'', LocalCacheEnabled = True, GOGC = 50,
     StoreTimeout = 500000000, DisableRequestLogging = False\<rparr>"

lemma default_values:
  assumes "viper_uses_defaults V src"
  shows "map_of config_defaults key = Some (CStr s) \<Longrightarrow> vp_GetString V config_defaults src key = s"
    and "map_of config_defaults key = Some (CBool b) \<Longrightarrow> vp_GetBool V config_defaults src key = b"
    and "map_of config_defaults key = Some (CInt i) \<Longrightarrow> vp_GetInt V config_defaults src key = i"
    and "map_of config_defaults key = Some (CInt i) \<Longrightarrow> vp_GetInt64 V config_defaults src key = i"
    and "map_of config_defaults key = Some (CStrs l) \<Longrightarrow> vp_GetStringSlice V config_defaults src key = l"
  using assms by (simp_all add: viper_uses_defaults_def)

lemma default_durations:
  "ParseDuration frac ''10s'' = Inr 10000000000" "ParseDuration frac ''2s'' = Inr 2000000000"
  "ParseDuration frac ''200ms'' = Inr 200000000" "ParseDuration frac ''500ms'' = Inr 500000000"
  by (simp_all add: ParseDuration_def parse_parts.simps parse_part_def is_digit_def digit_val_def
      unit_char_def unitMap_def)

lemma default_methods:
  "normalise_methods U [''GET'', ''HEAD'', ''OPTIONS''] = [''GET'', ''HEAD'', ''OPTIONS'']"
  "map (strings_ToUpper U) [''GET'', ''HEAD'', ''OPTIONS''] = [''GET'', ''HEAD'', ''OPTIONS'']"
  by (simp_all add: strings_ToUpper_def strings_TrimSpace_def is_ascii_def ascii_upper_def trim_ascii_def
      is_space_def)

lemma validate_default: "validate U default_config = None"
  by (simp add: validate_None_iff default_config_def strings_TrimSpace_def is_ascii_def trim_ascii_def
      is_space_def)

lemma default_exclude_set:
  "foldl (\<lambda>s m. s(strings_ToUpper U m \<mapsto> ())) Map.empty [''GET'', ''HEAD'', ''OPTIONS''] =
   [''GET'' \<mapsto> (), ''HEAD'' \<mapsto> (), ''OPTIONS'' \<mapsto> ()]"
  using default_methods(2) [of U] by simp

lemma Load_defaults_eq:
  assumes "viper_uses_defaults V (config_source path)" and "read_config V (config_source path) = None"
  shows "Load G V path = Inr default_config"
proof -
  let ?src = "config_source path"
  note get = default_values [OF assms(1)]
  have str: "vp_GetString V config_defaults ?src ''server.listen_addr'' = '':8081''"
    "vp_GetString V config_defaults ?src ''server.log_level'' = ''info''"
    "vp_GetString V config_defaults ?src ''server.shutdown_timeout'' = ''10s''"
    "vp_GetString V config_defaults ?src ''server.tls_cert_file'' = []"
    "vp_GetString V config_defaults ?src ''server.tls_key_file'' = []"
    "vp_GetString V config_defaults ?src ''server.tls_min_version'' = ''1.2''"
    "vp_GetString V config_defaults ?src ''redis.addr'' = ''localhost:6379''"
    "vp_GetString V config_defaults ?src ''redis.password'' = []"
    "vp_GetString V config_defaults ?src ''redis.dial_timeout'' = ''2s''"
    "vp_GetString V config_defaults ?src ''redis.read_timeout'' = ''200ms''"
    "vp_GetString V config_defaults ?src ''redis.write_timeout'' = ''200ms''"
    "vp_GetString V config_defaults ?src ''performance.store_timeout'' = ''500ms''"
    "vp_GetString V config_defaults ?src ''log.file'' = ''log/app.log''"
    "vp_GetString V config_defaults ?src ''dedup.window'' = ''10s''"
    "vp_GetString V config_defaults ?src ''proxy.x_accel_redirect_prefix'' = ''/internal/upstream''"
    by (rule get(1), simp add: config_defaults_def)+
  have bool: "vp_GetBool V config_defaults ?src ''server.tls_enabled'' = False"
    "vp_GetBool V config_defaults ?src ''performance.local_cache'' = True"
    "vp_GetBool V config_defaults ?src ''performance.disable_request_logging'' = False"
    "vp_GetBool V config_defaults ?src ''log.compress'' = True"
    "vp_GetBool V config_defaults ?src ''dedup.fail_open'' = True"
    by (rule get(2), simp add: config_defaults_def)+
  have num: "vp_GetInt V config_defaults ?src ''redis.db'' = 0"
    "vp_GetInt V config_defaults ?src ''performance.gogc'' = 50"
    "vp_GetInt V config_defaults ?src ''redis.pool_size'' = 100"
    "vp_GetInt V config_defaults ?src ''redis.min_idle'' = 20"
    "vp_GetInt V config_defaults ?src ''log.max_size_mb'' = 50"
    "vp_GetInt V config_defaults ?src ''log.max_backups'' = 5"
    "vp_GetInt V config_defaults ?src ''log.max_age_days'' = 30"
    by (rule get(3), simp add: config_defaults_def)+
  have rest: "vp_GetInt64 V config_defaults ?src ''dedup.max_body_bytes'' = 65536"
    "vp_GetStringSlice V config_defaults ?src ''dedup.exclude_methods'' = [''GET'', ''HEAD'', ''OPTIONS'']"
    by (rule get(4) get(5), simp add: config_defaults_def)+
  have "BuildExcludeSet U (default_config\<lparr>excludeSet := Map.empty\<rparr>) = default_config" for U
    unfolding BuildExcludeSet_def default_config_def using default_exclude_set [of U] by simp
  then show ?thesis
    using assms(2) validate_default [of "go_unicode G"]
    by (simp add: Load_def Let_def load_duration_def str bool num rest default_durations default_methods(1)
        default_config_def del: normalise_methods.simps)
qed

section \<open>Properties\<close>


definition viper_no_file :: viper where
  "viper_no_file =
    \<lparr>vp_ReadInConfig = (\<lambda>_. FileNotFound),
     vp_GetString = (\<lambda>defs _ key. case map_of defs key of Some (CStr s) \<Rightarrow> s | _ \<Rightarrow> []),
     vp_GetBool = (\<lambda>defs _ key. case map_of defs key of Some (CBool b) \<Rightarrow> b | _ \<Rightarrow> False),
     vp_GetInt = (\<lambda>defs _ key. case map_of defs key of Some (CInt i) \<Rightarrow> i | _ \<Rightarrow> 0),
     vp_GetInt64 = (\<lambda>defs _ key. case map_of defs key of Some (CInt i) \<Rightarrow> i | _ \<Rightarrow> 0),
     vp_GetStringSlice = (\<lambda>defs _ key. case map_of defs key of Some (CStrs l) \<Rightarrow> l | _ \<Rightarrow> [])\<rparr>"

lemma viper_no_file_defaults: "viper_uses_defaults viper_no_file src"
  by (simp add: viper_uses_defaults_def viper_no_file_def)

definition sample_golib :: golib where
  "sample_golib = \<lparr>go_unicode = \<lparr>u_ToUpper = (\<lambda>s. s), u_TrimSpace = (\<lambda>s. s)\<rparr>, go_frac = (\<lambda>_ _ _. 0)\<rparr>"


lemma Load_no_file: "Load sample_golib viper_no_file [] = Inr default_config"
  by (rule Load_defaults_eq [OF viper_no_file_defaults]) (simp add: read_config_def viper_no_file_def)

text \<open>
  C18: a loaded configuration is valid. Whatever the file says and the library returns, if
  \<open>Load\<close> succeeds then the result passes \<open>validate\<close>, its window and store timeout are
  positive, the window is the parsed value of the setting, and its exclusion table is the one
  \<open>BuildExcludeSet\<close> builds from its list of methods.
\<close>

theorem Load_returns_valid_config:
  assumes "Load G V path = Inr c"
  shows "validate (go_unicode G) c = None \<and> 0 < sint (DedupWindow c) \<and> 0 < sint (StoreTimeout c) \<and>
    ParseDuration (go_frac G) (vp_GetString V config_defaults (config_source path) ''dedup.window'') =
      Inr (DedupWindow c) \<and>
    BuildExcludeSet (go_unicode G) c = c"
  using Load_Inr [OF assms] by (simp add: validate_None_iff)

theorem Load_returns_valid_config_witness:
  "validate (go_unicode sample_golib) default_config = None \<and> 0 < sint (DedupWindow default_config) \<and>
   0 < sint (StoreTimeout default_config) \<and>
   ParseDuration (go_frac sample_golib) (vp_GetString viper_no_file config_defaults (config_source []) ''dedup.window'') =
     Inr (DedupWindow default_config) \<and>
   BuildExcludeSet (go_unicode sample_golib) default_config = default_config"
  by (rule Load_returns_valid_config [OF Load_no_file])

text \<open>
  C19: which methods bypass deduplication. For a loaded configuration whose configured methods are
  ASCII, an ASCII request method is excluded exactly when, in upper case, it is one of the configured
  methods, upper-cased and stripped of surrounding blanks; so the test ignores case on both sides,
  and a blank entry excludes nothing.
\<close>

theorem Load_method_exclusion:
  assumes "Load G V path = Inr c"
    and "ms = vp_GetStringSlice V config_defaults (config_source path) ''dedup.exclude_methods''"
    and "\<forall>r \<in> set ms. ascii_string r" and "ascii_string m"
  shows "IsMethodExcluded (go_unicode G) c m \<longleftrightarrow>
    m \<noteq> [] \<and> (\<exists>r \<in> set ms. map ascii_upper m = trim_ascii (map ascii_upper r))"
proof -
  let ?U = "go_unicode G"
  let ?f = "\<lambda>r. strings_TrimSpace ?U (strings_ToUpper ?U r)"
  have "IsMethodExcluded ?U c m \<longleftrightarrow> strings_ToUpper ?U m \<in> strings_ToUpper ?U ` set (normalise_methods ?U ms)"
    using IsMethodExcluded_Build [of ?U c m] Load_Inr(4,5) [OF assms(1)] assms(2) by simp
  also have "\<dots> \<longleftrightarrow> (\<exists>r \<in> set ms. ?f r \<noteq> [] \<and> strings_ToUpper ?U m = strings_ToUpper ?U (?f r))"
    by (auto simp: set_normalise_methods)
  also have "\<dots> \<longleftrightarrow> (\<exists>r \<in> set ms. ?f r \<noteq> [] \<and> strings_ToUpper ?U m = ?f r)"
    using assms(3) by (simp add: trim_upper_is_upper)
  also have "\<dots> \<longleftrightarrow> (\<exists>r \<in> set ms. m \<noteq> [] \<and> map ascii_upper m = trim_ascii (map ascii_upper r))"
  proof (rule bex_cong [OF refl])
    fix r assume "r \<in> set ms"
    then have "ascii_string r" using assms(3) by blast
    then have "?f r = trim_ascii (map ascii_upper r)"
      using ascii_ToUpper [of r ?U] by (simp add: ToUpper_ascii strings_TrimSpace_def)
    then show "?f r \<noteq> [] \<and> strings_ToUpper ?U m = ?f r \<longleftrightarrow>
        m \<noteq> [] \<and> map ascii_upper m = trim_ascii (map ascii_upper r)"
      using assms(4) by (metis ToUpper_ascii map_is_Nil_conv)
  qed
  finally show ?thesis by blast
qed

theorem Load_method_exclusion_witness:
  "IsMethodExcluded (go_unicode sample_golib) default_config ''head'' \<and>
   \<not> IsMethodExcluded (go_unicode sample_golib) default_config ''POST''"
proof -
  have ms: "[''GET'', ''HEAD'', ''OPTIONS''] =
      vp_GetStringSlice viper_no_file config_defaults (config_source []) ''dedup.exclude_methods''"
    by (simp add: viper_no_file_def config_defaults_def)
  have a: "\<forall>r \<in> set [''GET'', ''HEAD'', ''OPTIONS'']. ascii_string r" by (simp add: is_ascii_def)
  show ?thesis
    using Load_method_exclusion [OF Load_no_file ms a, of "''head''"]
      Load_method_exclusion [OF Load_no_file ms a, of "''POST''"]
    by (simp add: is_ascii_def ascii_upper_def trim_ascii_def is_space_def char_of_def bit_Suc_0_iff)
qed



end
