(* ===== verification/Store.thy ===== *)
theory Store
  imports Config
begin

text \<open>
  The package \<open>internal/store\<close>, file \<open>store.go\<close>: the \<open>Store\<close> interface, the Redis store
  and the in-memory store. The Redis client is a parameter, the record \<open>redis_client\<close> of the
  calls the store makes on it, with the documented behaviour of \<open>SET key value NX PX ttl\<close> as the
  named hypothesis \<open>redis_set_nx\<close>. The contract in the comment of the interface is the locale
  \<open>dedup_store\<close>, put together from \<open>blocking_store\<close> and \<open>tracking_store\<close>; its consequences for sequences of calls are proved there once.
\<close>

section \<open>Contexts\<close>

text \<open>A \<open>context.Context\<close>, for what the service does with it: its deadline, if any.\<close>

type_synonym ctx = "time option"

definition WithTimeout :: "ctx \<Rightarrow> duration \<Rightarrow> time \<Rightarrow> ctx" where
  "WithTimeout parent d now =
     (case parent of
        None \<Rightarrow> Some (time_Add now d)
      | Some t \<Rightarrow> Some (min t (time_Add now d)))"

section \<open>The Redis store\<close>

record redis_options =
  ro_Addr :: string
  ro_Password :: string
  ro_DB :: int
  ro_DialTimeout :: duration
  ro_ReadTimeout :: duration
  ro_WriteTimeout :: duration
  ro_PoolSize :: int
  ro_MinIdleConns :: int

record set_args =
  sa_Mode :: string
  sa_TTL :: duration

text \<open>
  The client library and the server behind it, with state \<open>'r\<close>. A command that talks to the
  server takes the time at which the server executes it.
\<close>

record 'r redis_client =
  rc_NewClient :: "redis_options \<Rightarrow> 'r"
  rc_Ping :: "'r \<Rightarrow> ctx \<Rightarrow> error option \<times> 'r"
  rc_SetArgs :: "'r \<Rightarrow> ctx \<Rightarrow> string \<Rightarrow> int \<Rightarrow> set_args \<Rightarrow> time \<Rightarrow> error option \<times> 'r"
  rc_Close :: "'r \<Rightarrow> error option \<times> 'r"

record 'r RedisStore =
  client :: 'r

definition NewRedis :: "'r redis_client \<Rightarrow> Config \<Rightarrow> time \<Rightarrow> error + 'r RedisStore" where
  "NewRedis R cfg now =
     (let cl = rc_NewClient R
            \<lparr>ro_Addr = RedisAddr cfg, ro_Password = RedisPassword cfg, ro_DB = RedisDB cfg,
             ro_DialTimeout = RedisDialTimeout cfg, ro_ReadTimeout = RedisReadTimeout cfg,
             ro_WriteTimeout = RedisWriteTimeout cfg, ro_PoolSize = RedisPoolSize cfg,
             ro_MinIdleConns = RedisMinIdle cfg\<rparr>;
          ctx = WithTimeout None (RedisDialTimeout cfg) now
      in case rc_Ping R cl ctx of
           (Some err, cl') \<Rightarrow> (let (_, cl'') = rc_Close R cl' in Inl (Prefixed ''redis ping'' err))
         | (None, cl') \<Rightarrow> Inr \<lparr>client = cl'\<rparr>)"

type_synonym dup_result = "bool \<times> error option"

definition Redis_IsDuplicate ::
  "'r redis_client \<Rightarrow> 'r RedisStore \<Rightarrow> ctx \<Rightarrow> string \<Rightarrow> duration \<Rightarrow> time \<Rightarrow> dup_result \<times> 'r RedisStore" where
  "Redis_IsDuplicate R s ctx key ttl now =
     (let (err, cl') = rc_SetArgs R (client s) ctx key 1 \<lparr>sa_Mode = ''NX'', sa_TTL = ttl\<rparr> now;
          s' = s\<lparr>client := cl'\<rparr>
      in case err of
           Some e \<Rightarrow>
             if errors_Is e RedisNil then ((True, None), s')
             else ((False, Some (WrapTwo ErrUnavailable e)), s')
         | None \<Rightarrow> ((False, None), s'))"

definition Redis_Ping :: "'r redis_client \<Rightarrow> 'r RedisStore \<Rightarrow> ctx \<Rightarrow> error option \<times> 'r RedisStore" where
  "Redis_Ping R s ctx =
     (let (err, cl') = rc_Ping R (client s) ctx; s' = s\<lparr>client := cl'\<rparr>
      in case err of
           Some e \<Rightarrow> (Some (WrapTwo ErrUnavailable e), s')
         | None \<Rightarrow> (None, s'))"

definition Redis_Close :: "'r redis_client \<Rightarrow> 'r RedisStore \<Rightarrow> error option \<times> 'r RedisStore" where
  "Redis_Close R s = (let (err, cl') = rc_Close R (client s) in (err, s\<lparr>client := cl'\<rparr>))"

section \<open>The in-memory store\<close>

record entry =
  expiresAt :: time

record MemoryStore =
  ms_data :: "string \<Rightarrow> entry option"
  Err :: "error option"

definition NewMemory :: MemoryStore where
  "NewMemory = \<lparr>ms_data = Map.empty, Err = None\<rparr>"

definition Memory_IsDuplicate ::
  "MemoryStore \<Rightarrow> ctx \<Rightarrow> string \<Rightarrow> duration \<Rightarrow> time \<Rightarrow> dup_result \<times> MemoryStore" where
  "Memory_IsDuplicate m ctx key ttl now =
     (case Err m of
        Some e \<Rightarrow> ((False, Some e), m)
      | None \<Rightarrow>
          (let add = (\<lambda>m. ((False, None), m\<lparr>ms_data := (ms_data m)(key \<mapsto> \<lparr>expiresAt = time_Add now ttl\<rparr>)\<rparr>))
           in case ms_data m key of
                Some e \<Rightarrow>
                  if now > expiresAt e then add (m\<lparr>ms_data := (ms_data m)(key := None)\<rparr>)
                  else ((True, None), m)
              | None \<Rightarrow> add m))"

definition Memory_Ping :: "MemoryStore \<Rightarrow> ctx \<Rightarrow> error option \<times> MemoryStore" where
  "Memory_Ping m ctx = (Err m, m)"

definition Memory_Close :: "MemoryStore \<Rightarrow> error option \<times> MemoryStore" where
  "Memory_Close m = (None, m)"

section \<open>Sequences of calls\<close>

text \<open>
  A call carries the clock readings its operation takes: one for the stores of this file, several
  for the cached store.
\<close>

record 'x dup_call =
  dc_ctx :: ctx
  dc_key :: string
  dc_ttl :: duration
  dc_time :: 'x

type_synonym ('s, 'x) is_dup_op = "'s \<Rightarrow> ctx \<Rightarrow> string \<Rightarrow> duration \<Rightarrow> 'x \<Rightarrow> dup_result \<times> 's"

definition call_store :: "('s, 'x) is_dup_op \<Rightarrow> 's \<Rightarrow> 'x dup_call \<Rightarrow> dup_result \<times> 's" where
  "call_store f s c = f s (dc_ctx c) (dc_key c) (dc_ttl c) (dc_time c)"

fun run_store :: "('s, 'x) is_dup_op \<Rightarrow> 's \<Rightarrow> 'x dup_call list \<Rightarrow> ('x dup_call \<times> dup_result) list \<times> 's" where
  "run_store f s [] = ([], s)"
| "run_store f s (c # cs) =
     (let (r, s') = call_store f s c; (rs, s'') = run_store f s' cs in ((c, r) # rs, s''))"

abbreviation allowed :: dup_result where "allowed \<equiv> (False, None)"
abbreviation duplicate :: dup_result where "duplicate \<equiv> (True, None)"

text \<open>The answer to each call of a run depends only on what came before it.\<close>

lemma run_store_Cons:
  assumes "call_store f s c = (r, s')"
  shows "run_store f s (c # cs) = ((c, r) # fst (run_store f s' cs), snd (run_store f s' cs))"
  using assms by (simp split: prod.split)

lemma run_store_hd: "hd (fst (run_store f s (c # cs))) \<in> set (fst (run_store f s (c # cs)))"
  "fst (hd (fst (run_store f s (c # cs)))) = c"
  by (simp_all split: prod.split)

section \<open>The contract of a deduplication store\<close>

text \<open>
  The comment of the interface \<open>Store\<close> in two halves. \<open>held s k t\<close>: the store has
  the key \<open>k\<close> at time \<open>t\<close> if nothing is written in between. \<open>ok d x\<close>: the time
  to live \<open>d\<close> and the clock readings \<open>x\<close> are within the range the store honours
  exactly. A call that returns an error may still have written the key, as a command that timed out
  on the client may have run on the server.

  The first half is what blocks duplicates: a key is only allowed when it was not held, it is
  then held for its time to live, and nothing a call does releases a key early.
\<close>

locale blocking_store =
  fixes is_dup :: "'s \<Rightarrow> ctx \<Rightarrow> string \<Rightarrow> duration \<Rightarrow> 'x \<Rightarrow> dup_result \<times> 's"
    and at :: "'x \<Rightarrow> time"
    and ok :: "duration \<Rightarrow> 'x \<Rightarrow> bool"
    and held :: "'s \<Rightarrow> string \<Rightarrow> time \<Rightarrow> bool"
  assumes held_until: "held s k t' \<Longrightarrow> t \<le> t' \<Longrightarrow> held s k t"
    and new_was_free: "is_dup s c k d x = ((False, None), s') \<Longrightarrow> ok d x \<Longrightarrow> \<not> held s k (at x)"
    and new_is_held: "is_dup s c k d x = ((False, None), s') \<Longrightarrow> ok d x \<Longrightarrow> at x \<le> u \<Longrightarrow>
      u < at x + sint d \<Longrightarrow> held s' k u"
    and held_stays: "is_dup s c k d x = (r, s') \<Longrightarrow> ok d x \<Longrightarrow> at x \<le> u \<Longrightarrow> held s k' u \<Longrightarrow> held s' k' u"
begin

text \<open>
  While a key is held nothing is allowed under it, however often and in whatever order it is asked
  for.
\<close>

lemma held_blocks:
  assumes "held s k u" and "\<forall>c \<in> set cs. ok (dc_ttl c) (dc_time c) \<and> at (dc_time c) \<le> u"
  shows "\<forall>(c, r) \<in> set (fst (run_store is_dup s cs)). dc_key c = k \<longrightarrow> r \<noteq> allowed"
  using assms
proof (induction cs arbitrary: s)
  case (Cons c cs)
  obtain r s' where call: "call_store is_dup s c = (r, s')" by fastforce
  have c: "ok (dc_ttl c) (dc_time c)" "at (dc_time c) \<le> u" using Cons.prems(2) by auto
  have "held s' k u" using call held_stays [OF _ c Cons.prems(1)] by (simp add: call_store_def)
  with Cons have IH: "\<forall>(c, r) \<in> set (fst (run_store is_dup s' cs)). dc_key c = k \<longrightarrow> r \<noteq> allowed" by simp
  have "dc_key c = k \<Longrightarrow> r \<noteq> allowed"
    using call new_was_free [OF _ c(1)] held_until [OF Cons.prems(1) c(2)] by (auto simp: call_store_def)
  with IH show ?case unfolding run_store_Cons [OF call] by auto
qed simp

lemma held_run:
  assumes "held s k u" and "\<forall>c \<in> set cs. ok (dc_ttl c) (dc_time c) \<and> at (dc_time c) \<le> u"
  shows "held (snd (run_store is_dup s cs)) k u"
  using assms
proof (induction cs arbitrary: s)
  case (Cons c cs)
  obtain r s' where call: "call_store is_dup s c = (r, s')" by fastforce
  with Cons.prems held_stays have "held s' k u" by (auto simp: call_store_def)
  with Cons show ?case unfolding run_store_Cons [OF call] by simp
qed simp

lemma allowed_then_blocked:
  assumes "is_dup s c k d x = (allowed, s')" and "ok d x" and "at x \<le> u" and "u < at x + sint d"
    and "\<forall>c \<in> set cs. ok (dc_ttl c) (dc_time c) \<and> at (dc_time c) \<le> u"
  shows "\<forall>(c, r) \<in> set (fst (run_store is_dup s' cs)). dc_key c = k \<longrightarrow> r \<noteq> allowed"
  using held_blocks [OF new_is_held [OF assms(1-4)] assms(5)] .

end

text \<open>
  The second half is what lets new requests through: only held keys are duplicates, and a key is
  held only for the time to live of some call that asked for it. The readings of a call lie between
  \<open>first\<close> and \<open>latest\<close>.
\<close>

locale tracking_store =
  fixes is_dup :: "'s \<Rightarrow> ctx \<Rightarrow> string \<Rightarrow> duration \<Rightarrow> 'x \<Rightarrow> dup_result \<times> 's"
    and first :: "'x \<Rightarrow> time"
    and latest :: "'x \<Rightarrow> time"
    and ok :: "duration \<Rightarrow> 'x \<Rightarrow> bool"
    and held :: "'s \<Rightarrow> string \<Rightarrow> time \<Rightarrow> bool"
    and invar :: "'s \<Rightarrow> bool"
  assumes invar_call: "is_dup s c k d x = (r, s') \<Longrightarrow> invar s \<Longrightarrow> invar s'"
    and dup_was_held: "is_dup s c k d x = ((True, None), s') \<Longrightarrow> invar s \<Longrightarrow> ok d x \<Longrightarrow> held s k (first x)"
    and held_by_call: "is_dup s c k d x = (r, s') \<Longrightarrow> invar s \<Longrightarrow> ok d x \<Longrightarrow> latest x \<le> u \<Longrightarrow>
      held s' k' u \<Longrightarrow> held s k' u \<or> (k' = k \<and> u \<le> latest x + sint d)"
begin

lemma invar_run: "invar s \<Longrightarrow> invar (snd (run_store is_dup s cs))"
proof (induction cs arbitrary: s)
  case (Cons c cs)
  obtain r s' where call: "call_store is_dup s c = (r, s')" by fastforce
  with Cons invar_call show ?case unfolding run_store_Cons [OF call] by (simp add: call_store_def)
qed simp

lemma held_was_asked:
  assumes "\<forall>c \<in> set cs. ok (dc_ttl c) (dc_time c) \<and> latest (dc_time c) \<le> u" and "invar s"
    and "held (snd (run_store is_dup s cs)) k u"
  shows "held s k u \<or> (\<exists>c \<in> set cs. dc_key c = k \<and> u \<le> latest (dc_time c) + sint (dc_ttl c))"
  using assms
proof (induction cs arbitrary: s)
  case (Cons c cs)
  obtain r s' where call: "call_store is_dup s c = (r, s')" by fastforce
  then have call': "is_dup s (dc_ctx c) (dc_key c) (dc_ttl c) (dc_time c) = (r, s')"
    by (simp add: call_store_def)
  have c: "ok (dc_ttl c) (dc_time c)" "latest (dc_time c) \<le> u" using Cons.prems(1) by auto
  have "held s' k u \<or> (\<exists>c \<in> set cs. dc_key c = k \<and> u \<le> latest (dc_time c) + sint (dc_ttl c))"
    using Cons.IH [of s'] Cons.prems invar_call [OF call'] run_store_Cons [OF call, of cs] by simp
  with held_by_call [OF call' Cons.prems(2) c] show ?case by auto
qed simp

lemma dup_was_asked:
  assumes "\<forall>c \<in> set cs. ok (dc_ttl c) (dc_time c) \<and> latest (dc_time c) \<le> first (dc_time c')"
    and "ok (dc_ttl c') (dc_time c')" and "invar s" and "\<not> held s (dc_key c') (first (dc_time c'))"
    and "fst (call_store is_dup (snd (run_store is_dup s cs)) c') = duplicate"
  shows "\<exists>c \<in> set cs. dc_key c = dc_key c' \<and> first (dc_time c') \<le> latest (dc_time c) + sint (dc_ttl c)"
proof -
  have "held (snd (run_store is_dup s cs)) (dc_key c') (first (dc_time c'))"
    using assms(5) dup_was_held [OF _ invar_run [OF assms(3)] assms(2)]
    by (auto simp: call_store_def prod_eq_iff)
  then show ?thesis using held_was_asked [OF assms(1,3)] assms(4) by blast
qed

end

text \<open>
  A store with both halves whose duplicates leave it as it was: the window of a key starts with
  the request that was allowed and is not moved by the duplicates that follow.
\<close>

locale dedup_store = blocking_store is_dup at ok held + tracking_store is_dup at at ok held "\<lambda>s. True"
  for is_dup :: "'s \<Rightarrow> ctx \<Rightarrow> string \<Rightarrow> duration \<Rightarrow> 'x \<Rightarrow> dup_result \<times> 's"
    and at :: "'x \<Rightarrow> time" and ok :: "duration \<Rightarrow> 'x \<Rightarrow> bool" and held :: "'s \<Rightarrow> string \<Rightarrow> time \<Rightarrow> bool" +
  assumes dup_adds_nothing: "is_dup s c k d x = ((True, None), s') \<Longrightarrow> ok d x \<Longrightarrow> at x \<le> u \<Longrightarrow>
      held s' k' u \<Longrightarrow> held s k' u"
begin

text \<open>
  What is held was put there: by an earlier call of the run that was allowed or failed, and not
  more than its time to live ago, unless it was held at the start.
\<close>

lemma held_was_put:
  assumes "\<forall>c \<in> set cs. ok (dc_ttl c) (dc_time c) \<and> at (dc_time c) \<le> u"
    and "held (snd (run_store is_dup s cs)) k u"
  shows "held s k u \<or>
    (\<exists>(c, r) \<in> set (fst (run_store is_dup s cs)). dc_key c = k \<and> r \<noteq> duplicate \<and>
       u \<le> at (dc_time c) + sint (dc_ttl c))"
  using assms
proof (induction cs arbitrary: s)
  case (Cons c cs)
  obtain r s' where call: "call_store is_dup s c = (r, s')" by fastforce
  then have call': "is_dup s (dc_ctx c) (dc_key c) (dc_ttl c) (dc_time c) = (r, s')"
    by (simp add: call_store_def)
  have c: "ok (dc_ttl c) (dc_time c)" "at (dc_time c) \<le> u" using Cons.prems(1) by auto
  have step: "held s k u \<or> (dc_key c = k \<and> r \<noteq> duplicate \<and> u \<le> at (dc_time c) + sint (dc_ttl c))"
    if "held s' k u"
    using held_by_call [OF call' _ c that] dup_adds_nothing [OF _ c that] call' by auto
  have "held s' k u \<or> (\<exists>(c, r) \<in> set (fst (run_store is_dup s' cs)). dc_key c = k \<and> r \<noteq> duplicate \<and>
      u \<le> at (dc_time c) + sint (dc_ttl c))"
    using Cons.IH [of s'] Cons.prems run_store_Cons [OF call, of cs] by simp
  with step show ?case unfolding run_store_Cons [OF call] by auto
qed simp

end

section \<open>The two stores implement the contract\<close>

definition memory_held :: "MemoryStore \<Rightarrow> string \<Rightarrow> time \<Rightarrow> bool" where
  "memory_held m k t \<longleftrightarrow> (case ms_data m k of None \<Rightarrow> False | Some e \<Rightarrow> t \<le> expiresAt e)"

interpretation mem: dedup_store Memory_IsDuplicate "\<lambda>t. t" "\<lambda>d t. True" memory_held
  by unfold_locales
    (auto simp: Memory_IsDuplicate_def memory_held_def time_Add_def Let_def split: option.splits if_splits)

definition redis_ttl_ok :: "duration \<Rightarrow> bool" where
  "redis_ttl_ok d \<longleftrightarrow> 0 < sint d \<and> 1000000 dvd sint d"

text \<open>
  The documented behaviour of \<open>SET key value NX PX ms\<close> through the client, for a whole positive
  number of milliseconds. \<open>ex r k t\<close>: the server has \<open>k\<close> at \<open>t\<close>. The reply is
  \<open>OK\<close> when the key was absent, and the key then lives for the time given; it is the nil reply
  when the key was there; after any other error the command may or may not have been executed.
\<close>

definition redis_set_nx :: "'r redis_client \<Rightarrow> ('r \<Rightarrow> string \<Rightarrow> time \<Rightarrow> bool) \<Rightarrow> bool" where
  "redis_set_nx R ex \<longleftrightarrow>
     (\<forall>r k t t'. ex r k t' \<longrightarrow> t \<le> t' \<longrightarrow> ex r k t) \<and>
     (\<forall>r c k d t err r'. redis_ttl_ok d \<longrightarrow>
        rc_SetArgs R r c k 1 \<lparr>sa_Mode = ''NX'', sa_TTL = d\<rparr> t = (err, r') \<longrightarrow>
        (case err of
           None \<Rightarrow>
             \<not> ex r k t \<and>
             (\<forall>u. t \<le> u \<longrightarrow> u < t + sint d \<longrightarrow> ex r' k u) \<and>
             (\<forall>u. t + sint d < u \<longrightarrow> \<not> ex r' k u) \<and>
             (\<forall>k' u. k' \<noteq> k \<longrightarrow> t \<le> u \<longrightarrow> ex r' k' u = ex r k' u)
         | Some e \<Rightarrow>
             if errors_Is e RedisNil then ex r k t \<and> (\<forall>k' u. t \<le> u \<longrightarrow> ex r' k' u = ex r k' u)
             else (\<forall>k' u. t \<le> u \<longrightarrow> ex r k' u \<longrightarrow> ex r' k' u) \<and>
                  (\<forall>k' u. t \<le> u \<longrightarrow> ex r' k' u \<longrightarrow> ex r k' u \<or> (k' = k \<and> u \<le> t + sint d))))"

text \<open>Which reply of the client is behind which result of the store.\<close>

lemma Redis_IsDuplicate_results:
  "Redis_IsDuplicate R s c k d t = (duplicate, s') \<Longrightarrow>
     \<exists>e. rc_SetArgs R (client s) c k 1 \<lparr>sa_Mode = ''NX'', sa_TTL = d\<rparr> t = (Some e, client s') \<and> errors_Is e RedisNil"
  "Redis_IsDuplicate R s c k d t = (allowed, s') \<Longrightarrow>
     rc_SetArgs R (client s) c k 1 \<lparr>sa_Mode = ''NX'', sa_TTL = d\<rparr> t = (None, client s')"
  "Redis_IsDuplicate R s c k d t = ((b, Some x), s') \<Longrightarrow>
     \<exists>e. rc_SetArgs R (client s) c k 1 \<lparr>sa_Mode = ''NX'', sa_TTL = d\<rparr> t = (Some e, client s') \<and>
       \<not> errors_Is e RedisNil \<and> \<not> b \<and> x = WrapTwo ErrUnavailable e"
  by (auto simp: Redis_IsDuplicate_def Let_def split: prod.splits option.splits if_splits)

lemma Redis_IsDuplicate_cases:
  assumes "Redis_IsDuplicate R s c k d t = (r, s')"
  obtains
    (nil) e where "rc_SetArgs R (client s) c k 1 \<lparr>sa_Mode = ''NX'', sa_TTL = d\<rparr> t = (Some e, client s')"
      "errors_Is e RedisNil"
  | (err) e where "rc_SetArgs R (client s) c k 1 \<lparr>sa_Mode = ''NX'', sa_TTL = d\<rparr> t = (Some e, client s')"
      "\<not> errors_Is e RedisNil"
  | (ok) "rc_SetArgs R (client s) c k 1 \<lparr>sa_Mode = ''NX'', sa_TTL = d\<rparr> t = (None, client s')"
  using assms by (auto simp: Redis_IsDuplicate_def Let_def split: prod.splits option.splits if_splits)

lemma redis_store_contract:
  assumes law: "redis_set_nx R ex"
  shows "dedup_store (Redis_IsDuplicate R) (\<lambda>t. t) (\<lambda>d t. redis_ttl_ok d) (\<lambda>s. ex (client s))"
proof -
  let ?set = "\<lambda>r c k d t. rc_SetArgs R r c k 1 \<lparr>sa_Mode = ''NX'', sa_TTL = d\<rparr> t"
  have ex_until: "ex r k t' \<Longrightarrow> t \<le> t' \<Longrightarrow> ex r k t" for r k t t'
    using law unfolding redis_set_nx_def by blast
  have set_ok: "\<not> ex r k t" "\<And>u. t \<le> u \<Longrightarrow> u < t + sint d \<Longrightarrow> ex r' k u"
    "\<And>u. ex r' k u \<Longrightarrow> u \<le> t + sint d" "\<And>k' u. k' \<noteq> k \<Longrightarrow> t \<le> u \<Longrightarrow> ex r' k' u = ex r k' u"
    if "?set r c k d t = (None, r')" "redis_ttl_ok d" for r c k d t r'
    using law that unfolding redis_set_nx_def by (fastforce simp: not_less [symmetric])+
  have set_nil: "ex r k t" "\<And>k' u. t \<le> u \<Longrightarrow> ex r' k' u = ex r k' u"
    if "?set r c k d t = (Some e, r')" "errors_Is e RedisNil" "redis_ttl_ok d" for r c k d t e r'
    using law that unfolding redis_set_nx_def by fastforce+
  have set_err: "\<And>k' u. t \<le> u \<Longrightarrow> ex r k' u \<Longrightarrow> ex r' k' u"
    "\<And>k' u. t \<le> u \<Longrightarrow> ex r' k' u \<Longrightarrow> ex r k' u \<or> (k' = k \<and> u \<le> t + sint d)"
    if "?set r c k d t = (Some e, r')" "\<not> errors_Is e RedisNil" "redis_ttl_ok d" for r c k d t e r'
    using law that unfolding redis_set_nx_def by fastforce+
  show ?thesis
  proof (unfold_locales, goal_cases)
    case 1 then show ?case by (rule ex_until)
  next
    case 2 then show ?case by (metis Redis_IsDuplicate_results(2) set_ok(1))
  next
    case 3 then show ?case by (metis Redis_IsDuplicate_results(2) set_ok(2))
  next
    case (4 s c k d x r s' u k')
    show ?case
    proof (rule Redis_IsDuplicate_cases [OF 4(1)])
      fix e assume "?set (client s) c k d x = (Some e, client s')" "errors_Is e RedisNil"
      with 4 show ?thesis using set_nil(2) by blast
    next
      fix e assume "?set (client s) c k d x = (Some e, client s')" "\<not> errors_Is e RedisNil"
      with 4 show ?thesis using set_err(1) by blast
    next
      assume "?set (client s) c k d x = (None, client s')"
      with 4 show ?thesis by (metis ex_until set_ok(1,4))
    qed
  next
    case 5 then show ?case by simp
  next
    case 6 then show ?case by (metis Redis_IsDuplicate_results(1) set_nil(1))
  next
    case (7 s c k d x r s' u k')
    show ?case
    proof (rule Redis_IsDuplicate_cases [OF 7(1)])
      fix e assume "?set (client s) c k d x = (Some e, client s')" "errors_Is e RedisNil"
      with 7 show ?thesis using set_nil(2) by blast
    next
      fix e assume "?set (client s) c k d x = (Some e, client s')" "\<not> errors_Is e RedisNil"
      with 7 show ?thesis using set_err(2) by blast
    next
      assume "?set (client s) c k d x = (None, client s')"
      with 7 show ?thesis by (metis set_ok(3,4))
    qed
  next
    case 8 then show ?case by (metis Redis_IsDuplicate_results(1) set_nil(2))
  qed
qed

section \<open>A server that behaves as documented\<close>

text \<open>
  The hypothesis \<open>redis_set_nx\<close> can be met: this small model of a server, which can also be
  down, meets it. The witnesses of the properties about the Redis store run on it.
\<close>

record redis_server =
  rs_data :: "string \<Rightarrow> time option"
  rs_up :: bool

definition server_ex :: "redis_server \<Rightarrow> string \<Rightarrow> time \<Rightarrow> bool" where
  "server_ex r k t \<longleftrightarrow> (case rs_data r k of None \<Rightarrow> False | Some e \<Rightarrow> t < e)"

definition server_SetArgs ::
  "redis_server \<Rightarrow> ctx \<Rightarrow> string \<Rightarrow> int \<Rightarrow> set_args \<Rightarrow> time \<Rightarrow> error option \<times> redis_server" where
  "server_SetArgs r c k v a t =
     (if \<not> rs_up r then (Some (OtherErr ''connection refused''), r)
      else if server_ex r k t then (Some RedisNil, r)
      else (None, r\<lparr>rs_data := (rs_data r)(k \<mapsto> t + sint (sa_TTL a))\<rparr>))"

definition server_client :: "redis_server redis_client" where
  "server_client =
     \<lparr>rc_NewClient = (\<lambda>_. \<lparr>rs_data = Map.empty, rs_up = True\<rparr>),
      rc_Ping = (\<lambda>r c. (if rs_up r then None else Some (OtherErr ''connection refused''), r)),
      rc_SetArgs = server_SetArgs,
      rc_Close = (\<lambda>r. (None, r))\<rparr>"

lemma server_set_nx: "redis_set_nx server_client server_ex"
  by (auto simp: redis_set_nx_def server_client_def server_SetArgs_def server_ex_def
      split: option.splits)

section \<open>Properties\<close>

text \<open>
  C7: one request per window, on Redis. The same holds of the Redis store for every client and
  server that treat \<open>SET NX PX\<close> as documented, also when calls in between fail: a failed call
  never frees the key.
\<close>

theorem redis_one_allowed_per_window:
  assumes "redis_set_nx R ex" and "Redis_IsDuplicate R s ctx k d t = (allowed, s')"
    and "redis_ttl_ok d" and "t \<le> u" and "u < t + sint d"
    and "\<forall>c \<in> set cs. redis_ttl_ok (dc_ttl c) \<and> dc_time c \<le> u"
  shows "\<forall>(c, r) \<in> set (fst (run_store (Redis_IsDuplicate R) s' cs)). dc_key c = k \<longrightarrow> r \<noteq> allowed"
  by (rule blocking_store.allowed_then_blocked
      [OF dedup_store.axioms(1) [OF redis_store_contract [OF assms(1)]] assms(2-6)])

theorem redis_one_allowed_per_window_witness:
  "snd (hd (fst (run_store (Redis_IsDuplicate server_client)
      (snd (Redis_IsDuplicate server_client \<lparr>client = \<lparr>rs_data = Map.empty, rs_up = True\<rparr>\<rparr> None ''k'' 10000000 0))
      [\<lparr>dc_ctx = None, dc_key = ''k'', dc_ttl = 10000000, dc_time = 40\<rparr>]))) \<noteq> allowed"
  (is "snd (hd (fst (run_store ?f ?s [?c]))) \<noteq> _")
proof -
  have "Redis_IsDuplicate server_client \<lparr>client = \<lparr>rs_data = Map.empty, rs_up = True\<rparr>\<rparr> None ''k'' 10000000 0 = (allowed, ?s)"
    by (simp add: Redis_IsDuplicate_def server_client_def server_SetArgs_def server_ex_def)
  then have "\<forall>(c, r) \<in> set (fst (run_store ?f ?s [?c])). dc_key c = ''k'' \<longrightarrow> r \<noteq> allowed"
    by (rule redis_one_allowed_per_window [OF server_set_nx, where u = 50]) (simp_all add: redis_ttl_ok_def)
  from bspec [OF this run_store_hd(1)] show ?thesis
    using run_store_hd(2) [of ?f ?s ?c "[]"] by (simp add: case_prod_beta del: run_store.simps)
qed

text \<open>As long as no error is injected through \<open>Err\<close> the in-memory store never fails.\<close>

lemma memory_call_no_error:
  assumes "call_store Memory_IsDuplicate m c = (r, m')" and "Err m = None"
  shows "snd r = None" and "Err m' = None"
  using assms by (auto simp: call_store_def Memory_IsDuplicate_def Let_def split: option.splits if_splits)

lemma memory_run_no_error:
  assumes "Err m = None"
  shows "\<forall>(c, r) \<in> set (fst (run_store Memory_IsDuplicate m cs)). snd r = None"
  using assms
proof (induction cs arbitrary: m)
  case (Cons a cs)
  obtain r m' where call: "call_store Memory_IsDuplicate m a = (r, m')" by fastforce
  from Cons.IH [OF memory_call_no_error(2) [OF call Cons.prems]] memory_call_no_error(1) [OF call Cons.prems]
  show ?case unfolding run_store_Cons [OF call] by simp
qed simp

lemma memory_run_Err:
  assumes "Err m = None"
  shows "Err (snd (run_store Memory_IsDuplicate m cs)) = None"
  using assms
proof (induction cs arbitrary: m)
  case (Cons a cs)
  obtain r m' where call: "call_store Memory_IsDuplicate m a = (r, m')" by fastforce
  from Cons.IH [OF memory_call_no_error(2) [OF call Cons.prems]]
  show ?case unfolding run_store_Cons [OF call] by simp
qed simp

lemma memory_allowed_held:
  assumes "(c', allowed) \<in> set (fst (run_store Memory_IsDuplicate m cs))"
    and "\<forall>c \<in> set cs. dc_time c \<le> u" and "u \<le> dc_time c' + sint (dc_ttl c')"
  shows "memory_held (snd (run_store Memory_IsDuplicate m cs)) (dc_key c') u"
  using assms(1,2)
proof (induction cs arbitrary: m)
  case (Cons a cs)
  obtain r m' where call: "call_store Memory_IsDuplicate m a = (r, m')" by fastforce
  show ?case
  proof (cases "(c', allowed) \<in> set (fst (run_store Memory_IsDuplicate m' cs))")
    case True
    with Cons.IH [of m'] Cons.prems(2) show ?thesis unfolding run_store_Cons [OF call] by simp
  next
    case False
    with Cons.prems(1) have "a = c'" "r = allowed" unfolding run_store_Cons [OF call] by auto
    with call assms(3) have "memory_held m' (dc_key c') u"
      by (auto simp: call_store_def Memory_IsDuplicate_def memory_held_def time_Add_def Let_def
          split: option.splits if_splits)
    with Cons.prems(2) show ?thesis unfolding run_store_Cons [OF call] by (simp add: mem.held_run)
  qed
qed simp

text \<open>
  C21: what the in-memory store answers, in terms of its history. In any run from empty, a call made
  no earlier than the others is told "duplicate" exactly when an earlier call of the run with the
  same key was allowed at most that call's time to live before, and is allowed otherwise.
\<close>

theorem memory_duplicate_iff:
  assumes "\<forall>c' \<in> set cs. dc_time c' \<le> dc_time c"
  shows "fst (call_store Memory_IsDuplicate (snd (run_store Memory_IsDuplicate NewMemory cs)) c) =
    (if \<exists>c'. (c', allowed) \<in> set (fst (run_store Memory_IsDuplicate NewMemory cs)) \<and>
          dc_key c' = dc_key c \<and> dc_time c \<le> dc_time c' + sint (dc_ttl c')
     then duplicate else allowed)"
proof -
  let ?rs = "run_store Memory_IsDuplicate NewMemory cs"
  have new: "Err NewMemory = None" by (simp add: NewMemory_def)
  note err = memory_run_Err [OF new, of cs] and res = memory_run_no_error [OF new, of cs]
  from err have "fst (call_store Memory_IsDuplicate (snd ?rs) c) =
      (if memory_held (snd ?rs) (dc_key c) (dc_time c) then duplicate else allowed)"
    by (auto simp: call_store_def Memory_IsDuplicate_def memory_held_def Let_def split: option.split)
  moreover have "(\<exists>c'. (c', allowed) \<in> set (fst ?rs) \<and> dc_key c' = dc_key c \<and>
      dc_time c \<le> dc_time c' + sint (dc_ttl c')) = memory_held (snd ?rs) (dc_key c) (dc_time c)" (is "?L = ?R")
  proof
    show "?L \<Longrightarrow> ?R" using memory_allowed_held [OF _ assms] by metis
  next
    assume ?R
    moreover have "\<not> memory_held NewMemory (dc_key c) (dc_time c)"
      by (simp add: memory_held_def NewMemory_def)
    ultimately obtain x where x: "x \<in> set (fst ?rs)" "case x of (c', r) \<Rightarrow> dc_key c' = dc_key c \<and>
        r \<noteq> duplicate \<and> dc_time c \<le> dc_time c' + sint (dc_ttl c')"
      using mem.held_was_put [of cs "dc_time c" NewMemory "dc_key c"] assms by blast
    obtain c' b e where c': "x = (c', (b, e))" by (metis surj_pair)
    with res x have "(c', allowed) \<in> set (fst ?rs)" by auto
    with x c' show ?L by auto
  qed
  ultimately show ?thesis by simp
qed

theorem memory_duplicate_iff_witness:
  "fst (call_store Memory_IsDuplicate (snd (run_store Memory_IsDuplicate NewMemory
      [\<lparr>dc_ctx = None, dc_key = ''k'', dc_ttl = 100, dc_time = 0\<rparr>]))
      \<lparr>dc_ctx = None, dc_key = ''k'', dc_ttl = 100, dc_time = 50\<rparr>) = duplicate"
  (is "fst (call_store _ (snd (run_store _ _ [?c])) ?c') = _")
proof -
  have "call_store Memory_IsDuplicate NewMemory ?c =
      (allowed, snd (call_store Memory_IsDuplicate NewMemory ?c))"
    by (simp add: call_store_def Memory_IsDuplicate_def NewMemory_def)
  from run_store_Cons [OF this, of "[]"]
  have "(?c, allowed) \<in> set (fst (run_store Memory_IsDuplicate NewMemory [?c]))" by simp
  then have "\<exists>c'. (c', allowed) \<in> set (fst (run_store Memory_IsDuplicate NewMemory [?c])) \<and>
      dc_key c' = dc_key ?c' \<and> dc_time ?c' \<le> dc_time c' + sint (dc_ttl c')"
    by (intro exI [of _ ?c]) simp
  with memory_duplicate_iff [of "[?c]" ?c'] show ?thesis by simp
qed

text \<open>
  C22: every error of the Redis store is "unavailable". Whatever the client returns, a result of
  \<open>IsDuplicate\<close> that carries an error carries one that \<open>errors.Is\<close> recognises as
  \<open>ErrUnavailable\<close>, with the answer "not a duplicate"; the nil reply is never an error.
\<close>

theorem redis_errors_are_unavailable:
  assumes "Redis_IsDuplicate R s ctx k d t = ((b, Some x), s')"
  shows "\<not> b \<and> errors_Is x ErrUnavailable \<and> \<not> errors_Is x RedisNil"
  using Redis_IsDuplicate_results(3) [OF assms] by auto

theorem redis_errors_are_unavailable_witness:
  "errors_Is (WrapTwo ErrUnavailable (OtherErr ''connection refused'')) ErrUnavailable \<and>
   Redis_IsDuplicate server_client \<lparr>client = \<lparr>rs_data = Map.empty, rs_up = False\<rparr>\<rparr> None ''k'' 100 0 =
     ((False, Some (WrapTwo ErrUnavailable (OtherErr ''connection refused''))),
      \<lparr>client = \<lparr>rs_data = Map.empty, rs_up = False\<rparr>\<rparr>)"
proof -
  have call: "Redis_IsDuplicate server_client \<lparr>client = \<lparr>rs_data = Map.empty, rs_up = False\<rparr>\<rparr> None ''k'' 100 0 =
     ((False, Some (WrapTwo ErrUnavailable (OtherErr ''connection refused''))),
      \<lparr>client = \<lparr>rs_data = Map.empty, rs_up = False\<rparr>\<rparr>)"
    by (simp add: Redis_IsDuplicate_def server_client_def server_SetArgs_def)
  show ?thesis using redis_errors_are_unavailable [OF call] call by simp
qed

end
