(* ===== verification/Local_Cache.thy ===== *)
theory Local_Cache
  imports Go_Time
begin

text \<open>
  The in-process cache of \<open>internal/store/localcache.go\<close>: 256 shards chosen by an FNV-1a hash
  of the key, each a map from key to expiry. Every clock reading the code makes is an argument of
  the operation that makes it, in the order of the calls. The lemmas show that the shards together
  implement one map (the abstraction \<open>cache_lookup\<close>), that \<open>Len\<close> counts its keys, and
  that eviction, lazy or by the sweeper, is invisible to later lookups. The contract the cached
  store relies on is the locale \<open>expiring_cache\<close>.
\<close>

section \<open>State and operations\<close>

definition numShards :: nat where
  "numShards = 256"

record cacheShard =
  sh_data :: "(string \<times> int64) list"

record LocalCache =
  shards :: "cacheShard list"

definition NewLocalCache :: LocalCache where
  "NewLocalCache = \<lparr>shards = replicate numShards \<lparr>sh_data = []\<rparr>\<rparr>"

fun fnv1a :: "uint64 \<Rightarrow> string \<Rightarrow> uint64" where
  "fnv1a h [] = h"
| "fnv1a h (c # cs) = fnv1a ((h XOR ucast (byte_of c)) * 1099511628211) cs"

definition shardIndex :: "string \<Rightarrow> 8 word" where
  "shardIndex key = ucast (fnv1a 14695981039346656037 key AND 0xFF)"

definition shard_of :: "LocalCache \<Rightarrow> string \<Rightarrow> cacheShard" where
  "shard_of c key = shards c ! unat (shardIndex key)"

definition put_shard :: "LocalCache \<Rightarrow> string \<Rightarrow> (string \<times> int64) list \<Rightarrow> LocalCache" where
  "put_shard c key d = c\<lparr>shards := (shards c)[unat (shardIndex key) := \<lparr>sh_data = d\<rparr>]\<rparr>"

text \<open>
  \<open>Contains\<close> has two critical sections: the lookup under the read lock, and, for an entry
  found expired, the deletion under the write lock, which looks at the entry and the clock again.
\<close>

definition Contains_read :: "LocalCache \<Rightarrow> string \<Rightarrow> int64 option" where
  "Contains_read c key = map_of (sh_data (shard_of c key)) key"

definition Contains_evict :: "LocalCache \<Rightarrow> string \<Rightarrow> time \<Rightarrow> LocalCache" where
  "Contains_evict c key now2 =
     (case map_of (sh_data (shard_of c key)) key of
        None \<Rightarrow> c
      | Some exp \<Rightarrow>
          if sint exp \<le> unix_ns now2 then put_shard c key (AList.delete key (sh_data (shard_of c key)))
          else c)"

definition Contains :: "LocalCache \<Rightarrow> string \<Rightarrow> time \<Rightarrow> time \<Rightarrow> bool \<times> LocalCache" where
  "Contains c key now now2 =
     (case Contains_read c key of
        None \<Rightarrow> (False, c)
      | Some expiry \<Rightarrow>
          if sint expiry \<le> unix_ns now then (False, Contains_evict c key now2)
          else (True, c))"

definition Set :: "LocalCache \<Rightarrow> string \<Rightarrow> duration \<Rightarrow> time \<Rightarrow> LocalCache" where
  "Set c key ttl now =
     put_shard c key
       (AList.update key (UnixNano (time_Add now ttl)) (sh_data (shard_of c key)))"

definition Len :: "LocalCache \<Rightarrow> nat" where
  "Len c = foldl (\<lambda>n sh. n + length (sh_data sh)) 0 (shards c)"

definition sweep :: "LocalCache \<Rightarrow> time \<Rightarrow> LocalCache" where
  "sweep c now =
     c\<lparr>shards := map (\<lambda>sh. \<lparr>sh_data = filter (\<lambda>(k, exp). \<not> sint exp \<le> unix_ns now) (sh_data sh)\<rparr>)
       (shards c)\<rparr>"

text \<open>
  The sweeper goroutine as the sequence of what its \<open>select\<close> receives: a tick, which sweeps
  with the clock reading of that moment, or the cancelled context, which ends it. The second
  component says whether the loop has returned.
\<close>

datatype sweep_event = Tick time | CtxDone

fun SweepLoop :: "sweep_event list \<Rightarrow> LocalCache \<Rightarrow> LocalCache \<times> bool" where
  "SweepLoop [] c = (c, False)"
| "SweepLoop (CtxDone # es) c = (c, True)"
| "SweepLoop (Tick now # es) c = SweepLoop es (sweep c now)"

section \<open>The invariant and the map the shards implement\<close>

definition cache_lookup :: "LocalCache \<Rightarrow> string \<Rightarrow> int64 option" where
  "cache_lookup c key = map_of (sh_data (shard_of c key)) key"

definition cache_ok :: "LocalCache \<Rightarrow> bool" where
  "cache_ok c \<longleftrightarrow> length (shards c) = numShards \<and>
     (\<forall>i < numShards. distinct (map fst (sh_data (shards c ! i))) \<and>
        fst ` set (sh_data (shards c ! i)) \<subseteq> {k. unat (shardIndex k) = i})"

lemma shardIndex_less [simp]: "unat (shardIndex key) < numShards"
  using unsigned_less [of "shardIndex key"] by (simp add: numShards_def)

lemma shardIndex_less_length [simp]: "cache_ok c \<Longrightarrow> unat (shardIndex key) < length (shards c)"
  by (simp add: cache_ok_def)

lemma distinct_shard_of: "cache_ok c \<Longrightarrow> distinct (map fst (sh_data (shard_of c key)))"
  by (simp add: cache_ok_def shard_of_def)

lemma cache_ok_put_shard:
  assumes "cache_ok c" and "distinct (map fst d)"
    and "fst ` set d \<subseteq> insert key (fst ` set (sh_data (shard_of c key)))"
  shows "cache_ok (put_shard c key d)"
proof -
  let ?i = "unat (shardIndex key)"
  have "fst ` set (sh_data (shards c ! ?i)) \<subseteq> {k. unat (shardIndex k) = ?i}"
    using assms(1) by (simp add: cache_ok_def)
  then have "insert key (fst ` set (sh_data (shard_of c key))) \<subseteq> {k. unat (shardIndex k) = ?i}"
    by (simp add: shard_of_def)
  with assms(3) have "fst ` set d \<subseteq> {k. unat (shardIndex k) = ?i}" by (rule subset_trans)
  with assms(1,2) show ?thesis by (simp add: cache_ok_def put_shard_def nth_list_update)
qed

lemma lookup_put_shard:
  assumes "cache_ok c"
  shows "cache_lookup (put_shard c key d) k =
    (if shardIndex k = shardIndex key then map_of d k else cache_lookup c k)"
  using assms
  by (auto simp: cache_lookup_def put_shard_def shard_of_def nth_list_update word_unat_eq_iff)

lemma map_of_other_shard:
  assumes "cache_ok c" and "shardIndex k = shardIndex key"
  shows "map_of (sh_data (shard_of c key)) k = cache_lookup c k"
  using assms by (simp add: cache_lookup_def shard_of_def)

subsection \<open>What each operation does to the map\<close>

lemma cache_ok_New [cache_laws]: "cache_ok NewLocalCache"
  by (simp add: cache_ok_def NewLocalCache_def)

lemma lookup_New [cache_laws]: "cache_lookup NewLocalCache key = None"
  by (simp add: cache_lookup_def shard_of_def NewLocalCache_def)

lemma cache_ok_Set [cache_laws]: "cache_ok c \<Longrightarrow> cache_ok (Set c key ttl now)"
  unfolding Set_def
  by (rule cache_ok_put_shard) (auto simp: AList.dom_update alist_distinct distinct_shard_of)

lemma lookup_Set [cache_laws]:
  "cache_ok c \<Longrightarrow> cache_lookup (Set c key ttl now) =
     (cache_lookup c)(key \<mapsto> UnixNano (time_Add now ttl))"
  by (rule ext)
    (simp add: Set_def lookup_put_shard go_map map_of_other_shard)

lemma cache_ok_evict [cache_laws]: "cache_ok c \<Longrightarrow> cache_ok (Contains_evict c key now2)"
  using AList.dom_delete_subset [of key "sh_data (shard_of c key)"]
  by (simp add: Contains_evict_def cache_ok_put_shard alist_distinct distinct_shard_of subset_insertI2
      split: option.split)

lemma lookup_evict [cache_laws]:
  "cache_ok c \<Longrightarrow> cache_lookup (Contains_evict c key now2) =
     (case cache_lookup c key of
        Some exp \<Rightarrow> if sint exp \<le> unix_ns now2 then (cache_lookup c)(key := None) else cache_lookup c
      | None \<Rightarrow> cache_lookup c)"
  by (rule ext)
    (auto simp: Contains_evict_def cache_lookup_def [of c key, symmetric] lookup_put_shard
      go_map map_of_other_shard split: option.splits)

lemma Contains_read_eq: "Contains_read c key = cache_lookup c key"
  by (simp add: Contains_read_def cache_lookup_def)

lemma cache_ok_sweep [cache_laws]: "cache_ok c \<Longrightarrow> cache_ok (sweep c now)"
  by (auto simp: cache_ok_def sweep_def alist_distinct)

lemma lookup_sweep [cache_laws]:
  "cache_ok c \<Longrightarrow> cache_lookup (sweep c now) key =
     (case cache_lookup c key of
        Some exp \<Rightarrow> if sint exp \<le> unix_ns now then None else Some exp
      | None \<Rightarrow> None)"
  by (auto simp: cache_lookup_def sweep_def shard_of_def map_of_filter_distinct cache_ok_def
      split: option.splits)

section \<open>The contract of an expiring cache\<close>

text \<open>A key is unexpired at time \<open>t\<close> when it has an entry whose expiry is later.\<close>

definition unexpired :: "(string \<Rightarrow> int64 option) \<Rightarrow> string \<Rightarrow> time \<Rightarrow> bool" where
  "unexpired m k t \<longleftrightarrow> (case m k of None \<Rightarrow> False | Some e \<Rightarrow> unix_ns t < sint e)"

text \<open>
  The cache may forget entries that have expired by time \<open>s\<close>, and only those: what it still
  holds is what the map \<open>m\<close> of all assignments says.
\<close>

definition agrees_at :: "time \<Rightarrow> (string \<Rightarrow> int64 option) \<Rightarrow> (string \<Rightarrow> int64 option) \<Rightarrow> bool" where
  "agrees_at s lk m \<longleftrightarrow>
     (\<forall>k. lk k = m k \<or> (lk k = None \<and> (\<exists>e. m k = Some e \<and> sint e \<le> unix_ns s)))"

lemma agrees_at_refl: "agrees_at s m m"
  by (simp add: agrees_at_def)

lemma agrees_at_unexpired: "agrees_at s lk m \<Longrightarrow> unexpired lk k s = unexpired m k s"
  unfolding agrees_at_def unexpired_def by (drule spec [of _ k]) (auto split: option.splits)

lemma agrees_at_trans:
  assumes "agrees_at t lk lk'" and "agrees_at s lk' m" and "unix_ns t \<le> unix_ns s"
  shows "agrees_at s lk m"
  unfolding agrees_at_def
proof
  fix k
  from assms(1) have "lk k = lk' k \<or> (lk k = None \<and> (\<exists>e. lk' k = Some e \<and> sint e \<le> unix_ns t))"
    by (simp add: agrees_at_def)
  moreover from assms(2) have "lk' k = m k \<or> (lk' k = None \<and> (\<exists>e. m k = Some e \<and> sint e \<le> unix_ns s))"
    by (simp add: agrees_at_def)
  ultimately show "lk k = m k \<or> (lk k = None \<and> (\<exists>e. m k = Some e \<and> sint e \<le> unix_ns s))"
    using assms(3) by (elim disjE) auto
qed

locale expiring_cache =
  fixes lookup :: "'c \<Rightarrow> string \<Rightarrow> int64 option"
    and contains :: "'c \<Rightarrow> string \<Rightarrow> time \<Rightarrow> time \<Rightarrow> bool \<times> 'c"
    and set_ttl :: "'c \<Rightarrow> string \<Rightarrow> duration \<Rightarrow> time \<Rightarrow> 'c"
    and sweep_at :: "'c \<Rightarrow> time \<Rightarrow> 'c"
    and invar :: "'c \<Rightarrow> bool"
  assumes invar_contains: "invar c \<Longrightarrow> invar (snd (contains c k t t'))"
    and invar_set: "invar c \<Longrightarrow> invar (set_ttl c k d t)"
    and invar_sweep: "invar c \<Longrightarrow> invar (sweep_at c t)"
    and contains_result: "invar c \<Longrightarrow> fst (contains c k t t') = unexpired (lookup c) k t"
    and contains_keeps: "invar c \<Longrightarrow> agrees_at t' (lookup (snd (contains c k t t'))) (lookup c)"
    and set_maps: "invar c \<Longrightarrow> lookup (set_ttl c k d t) = (lookup c)(k \<mapsto> UnixNano (time_Add t d))"
    and sweep_keeps: "invar c \<Longrightarrow> agrees_at t (lookup (sweep_at c t)) (lookup c)"
begin

lemma contains_agrees:
  assumes "invar c" and "agrees_at s (lookup c) m" and "unix_ns t' \<le> unix_ns s"
  shows "agrees_at s (lookup (snd (contains c k t t'))) m"
  by (rule agrees_at_trans [OF contains_keeps [OF assms(1)] assms(2,3)])

lemma sweep_agrees:
  assumes "invar c" and "agrees_at s (lookup c) m" and "unix_ns t \<le> unix_ns s"
  shows "agrees_at s (lookup (sweep_at c t)) m"
  by (rule agrees_at_trans [OF sweep_keeps [OF assms(1)] assms(2,3)])

lemma set_agrees:
  assumes "invar c" and "agrees_at s (lookup c) m"
  shows "agrees_at s (lookup (set_ttl c k d t)) (m(k \<mapsto> UnixNano (time_Add t d)))"
  using assms by (simp add: set_maps agrees_at_def)

lemma contains_invisible:
  assumes "invar c" and "unix_ns t' \<le> unix_ns s"
  shows "unexpired (lookup (snd (contains c k t t'))) k' s = unexpired (lookup c) k' s"
  by (rule agrees_at_unexpired [OF contains_agrees [OF assms(1) agrees_at_refl assms(2)]])

lemma sweep_invisible:
  assumes "invar c" and "unix_ns t \<le> unix_ns s"
  shows "unexpired (lookup (sweep_at c t)) k s = unexpired (lookup c) k s"
  by (rule agrees_at_unexpired [OF sweep_agrees [OF assms(1) agrees_at_refl assms(2)]])

end

interpretation lc: expiring_cache cache_lookup Contains Set sweep cache_ok
proof (unfold_locales, goal_cases)
  case 1 then show ?case by (simp add: Contains_def cache_ok_evict split: option.split)
next
  case 2 then show ?case by (rule cache_ok_Set)
next
  case 3 then show ?case by (rule cache_ok_sweep)
next
  case 4 then show ?case
    by (auto simp: Contains_def Contains_read_eq unexpired_def split: option.split)
next
  case 5 then show ?case
    by (auto simp: Contains_def Contains_read_eq agrees_at_def lookup_evict split: option.split)
next
  case 6 then show ?case by (rule lookup_Set)
next
  case 7 then show ?case by (auto simp: agrees_at_def lookup_sweep split: option.split)
qed

section \<open>Sequences of operations\<close>

datatype cache_op = OpContains string time time | OpSet string duration time | OpSweep time

fun cache_step :: "LocalCache \<Rightarrow> cache_op \<Rightarrow> LocalCache" where
  "cache_step c (OpContains k t t') = snd (Contains c k t t')"
| "cache_step c (OpSet k d t) = Set c k d t"
| "cache_step c (OpSweep t) = sweep c t"

definition cache_run :: "LocalCache \<Rightarrow> cache_op list \<Rightarrow> LocalCache" where
  "cache_run c ops = foldl cache_step c ops"

text \<open>The specification: a map that remembers the last assignment of every key for ever.\<close>

fun set_map_step :: "(string \<Rightarrow> int64 option) \<Rightarrow> cache_op \<Rightarrow> (string \<Rightarrow> int64 option)" where
  "set_map_step m (OpSet k d t) = m(k \<mapsto> UnixNano (time_Add t d))"
| "set_map_step m _ = m"

definition set_map :: "cache_op list \<Rightarrow> string \<Rightarrow> int64 option" where
  "set_map ops = foldl set_map_step Map.empty ops"

text \<open>The clock readings at which an operation may delete entries are not later than \<open>s\<close>.\<close>

fun evicts_before :: "time \<Rightarrow> cache_op \<Rightarrow> bool" where
  "evicts_before s (OpContains k t t') \<longleftrightarrow> unix_ns t' \<le> unix_ns s"
| "evicts_before s (OpSweep t) \<longleftrightarrow> unix_ns t \<le> unix_ns s"
| "evicts_before s (OpSet k d t) \<longleftrightarrow> True"

lemma cache_step_ok: "cache_ok c \<Longrightarrow> cache_ok (cache_step c op)"
  by (cases op) (simp_all add: lc.invar_contains lc.invar_set lc.invar_sweep)

lemma cache_run_ok: "cache_ok c \<Longrightarrow> cache_ok (cache_run c ops)"
  unfolding cache_run_def by (induction ops arbitrary: c) (simp_all add: cache_step_ok)

lemma cache_step_agrees:
  "cache_ok c \<Longrightarrow> agrees_at s (cache_lookup c) m \<Longrightarrow> evicts_before s op \<Longrightarrow>
   agrees_at s (cache_lookup (cache_step c op)) (set_map_step m op)"
  by (cases op) (simp_all add: lc.contains_agrees lc.set_agrees lc.sweep_agrees)

lemma cache_run_agrees:
  "cache_ok c \<Longrightarrow> agrees_at s (cache_lookup c) m \<Longrightarrow> list_all (evicts_before s) ops \<Longrightarrow>
   agrees_at s (cache_lookup (foldl cache_step c ops)) (foldl set_map_step m ops)"
  by (induction ops arbitrary: c m) (simp_all add: cache_step_ok cache_step_agrees)

section \<open>Counting\<close>

lemma Len_eq_sum:
  assumes "cache_ok c"
  shows "Len c = (\<Sum>i<numShards. length (sh_data (shards c ! i)))"
proof -
  have "foldl (\<lambda>n sh. n + length (sh_data sh)) a xs = a + sum_list (map (length \<circ> sh_data) xs)"
    for a and xs :: "cacheShard list"
    by (induction xs arbitrary: a) simp_all
  then show ?thesis using assms
    by (simp add: Len_def cache_ok_def sum_list_sum_nth atLeast0LessThan)
qed

lemma shard_keys_index:
  assumes "cache_ok c" and "i < numShards" and "k \<in> fst ` set (sh_data (shards c ! i))"
  shows "unat (shardIndex k) = i"
proof -
  have "fst ` set (sh_data (shards c ! i)) \<subseteq> {k. unat (shardIndex k) = i}"
    using assms(1,2) by (simp add: cache_ok_def)
  with assms(3) show ?thesis by blast
qed

lemma keys_eq_Union:
  assumes "cache_ok c"
  shows "{k. cache_lookup c k \<noteq> None} = (\<Union>i<numShards. fst ` set (sh_data (shards c ! i)))"
    (is "?L = ?R")
proof
  have in_shard: "cache_lookup c k \<noteq> None \<longleftrightarrow>
      k \<in> fst ` set (sh_data (shards c ! unat (shardIndex k)))" for k
    by (simp add: cache_lookup_def shard_of_def map_of_eq_None_iff)
  show "?L \<subseteq> ?R" using in_shard by (auto intro!: UN_I [where a = "unat (shardIndex _)"])
  show "?R \<subseteq> ?L"
  proof
    fix k assume "k \<in> ?R"
    then obtain i where i: "i < numShards" "k \<in> fst ` set (sh_data (shards c ! i))" by blast
    with shard_keys_index [OF assms i] in_shard [of k] show "k \<in> ?L" by simp
  qed
qed

lemma shard_keys_disjoint:
  assumes "cache_ok c" and "i < numShards" and "j < numShards" and "i \<noteq> j"
  shows "fst ` set (sh_data (shards c ! i)) \<inter> fst ` set (sh_data (shards c ! j)) = {}"
  using shard_keys_index [OF assms(1)] assms(2-4) by blast

lemma Len_eq_card:
  assumes "cache_ok c"
  shows "Len c = card {k. cache_lookup c k \<noteq> None}"
proof -
  have "card (\<Union>i<numShards. fst ` set (sh_data (shards c ! i))) =
      (\<Sum>i<numShards. card (fst ` set (sh_data (shards c ! i))))"
    using shard_keys_disjoint [OF assms] by (intro card_UN_disjoint) auto
  also have "\<dots> = (\<Sum>i<numShards. length (sh_data (shards c ! i)))"
    using assms by (intro sum.cong) (simp_all add: cache_ok_def length_eq_card_fst)
  finally show ?thesis by (simp only: Len_eq_sum [OF assms] keys_eq_Union [OF assms])
qed

section \<open>Properties\<close>

text \<open>
  C9: the cache refines a map that never forgets. After any sequence of lookups, assignments and
  sweeps on a new cache whose deleting steps read the clock no later than \<open>s\<close>, a lookup at
  \<open>s\<close> answers exactly what the last assignment of the key says, whether its entry was
  evicted lazily, swept, or is still there; and the answer does not depend on the sharding.
\<close>

theorem cache_refines_set_map:
  assumes "list_all (evicts_before s) ops"
  shows "fst (Contains (cache_run NewLocalCache ops) k s s') = unexpired (set_map ops) k s"
proof -
  have "cache_lookup NewLocalCache = Map.empty" by (rule ext) (rule lookup_New)
  then have "agrees_at s (cache_lookup (cache_run NewLocalCache ops)) (set_map ops)"
    using cache_run_agrees [OF cache_ok_New, of s Map.empty ops] assms
    by (simp add: cache_run_def set_map_def agrees_at_refl)
  then show ?thesis
    by (simp add: lc.contains_result cache_run_ok cache_ok_New agrees_at_unexpired)
qed

theorem cache_refines_set_map_witness:
  "fst (Contains (cache_run NewLocalCache
      [OpSet ''a'' 100 10, OpContains ''b'' 20 20, OpSet ''b'' 5 30, OpSweep 50]) ''a'' 60 60) \<and>
   \<not> fst (Contains (cache_run NewLocalCache
      [OpSet ''a'' 100 10, OpContains ''b'' 20 20, OpSet ''b'' 5 30, OpSweep 50]) ''b'' 60 60)"
proof -
  let ?ops = "[OpSet ''a'' 100 10, OpContains ''b'' 20 20, OpSet ''b'' 5 30, OpSweep 50]"
  have "list_all (evicts_before 60) ?ops" by (simp add: UnixNano_def)
  from cache_refines_set_map [OF this, of "''a''" 60] cache_refines_set_map [OF this, of "''b''" 60]
  show ?thesis by (simp add: set_map_def unexpired_def time_Add_def UnixNano_def)
qed

text \<open>
  \<open>Len\<close> counts keys. In every cache reached by the operations, the sum of the shard sizes
  is the number of distinct keys held: no key is ever stored twice or in two shards.
\<close>

lemma Len_counts_keys:
  "Len (cache_run NewLocalCache ops) = card {k. cache_lookup (cache_run NewLocalCache ops) k \<noteq> None}"
  by (rule Len_eq_card [OF cache_run_ok [OF cache_ok_New]])

text \<open>
  C32: a sweep leaves exactly the unexpired entries, so the number it leaves is the number of keys
  that a lookup at that moment would find.
\<close>

theorem Len_after_sweep:
  assumes "cache_ok c"
  shows "Len (sweep c t) = card {k. fst (Contains c k t t')}"
proof -
  have "cache_lookup (sweep c t) k \<noteq> None \<longleftrightarrow> fst (Contains c k t t')" for k
    using assms by (auto simp: lc.contains_result lookup_sweep unexpired_def split: option.split)
  then show ?thesis using assms by (simp only: Len_eq_card [OF cache_ok_sweep])
qed

theorem Len_after_sweep_witness:
  "Len (sweep (Set NewLocalCache ''a'' 100 0) 50) =
   card {k. fst (Contains (Set NewLocalCache ''a'' 100 0) k 50 50)}"
  by (rule Len_after_sweep [OF cache_ok_Set [OF cache_ok_New]])

text \<open>
  C31: the time to live. While expiry times fit in 64 bits, a key assigned at \<open>now\<close> is found
  at every later time before \<open>now + ttl\<close> and at no time from then on.
\<close>

theorem Set_then_Contains:
  assumes "cache_ok c" and "representable (time_Add now ttl)" and "representable t"
  shows "fst (Contains (Set c key ttl now) key t t') \<longleftrightarrow> t < now + sint ttl"
proof -
  have "unix_ns (time_Add now ttl) = now + sint ttl" and "unix_ns t = t"
    using assms(2,3) unix_ns_representable [of "time_Add now ttl"] unix_ns_representable [of t]
    by (simp_all add: time_Add_def)
  with assms(1) show ?thesis
    by (simp add: lc.contains_result cache_ok_Set unexpired_def lookup_Set)
qed

theorem Set_then_Contains_witness:
  "fst (Contains (Set NewLocalCache ''k'' 10000000000 1700000000000000000) ''k'' 1700000009999999999 0) \<and>
   \<not> fst (Contains (Set NewLocalCache ''k'' 10000000000 1700000000000000000) ''k'' 1700000010000000000 0)"
  using Set_then_Contains [OF cache_ok_New, of 1700000000000000000 10000000000 1700000009999999999 "''k''" 0]
    Set_then_Contains [OF cache_ok_New, of 1700000000000000000 10000000000 1700000010000000000 "''k''" 0]
  by (simp add: representable_def time_Add_def)

text \<open>
  C33: the wrap-around of \<open>UnixNano\<close>. A time to live that takes the expiry past the largest
  64-bit instant gives an entry that is expired from the start: the key is stored, and no lookup at
  a representable time since the epoch finds it.
\<close>

theorem Set_overflow_never_hits:
  assumes "cache_ok c" and "representable now" and "\<not> representable (time_Add now ttl)"
    and "0 \<le> now" and "0 \<le> t" and "representable t"
  shows "cache_lookup (Set c key ttl now) key \<noteq> None \<and>
    \<not> fst (Contains (Set c key ttl now) key t t')"
proof -
  have ttl: "- (2 ^ 63) \<le> sint ttl" "sint ttl < 2 ^ 63"
    using sint_greater_eq [of ttl] sint_lt [of ttl] by simp_all
  define e where "e = now + sint ttl"
  have "e < 2 ^ 64" using assms(2) ttl(2) by (simp add: e_def representable_def)
  moreover have "2 ^ 63 \<le> e"
  proof (rule ccontr)
    assume "\<not> 2 ^ 63 \<le> e"
    then have "representable (time_Add now ttl)"
      using assms(4) ttl(1) by (simp add: e_def representable_def time_Add_def)
    with assms(3) show False by simp
  qed
  ultimately have e: "2 ^ 63 \<le> e" "e < 2 ^ 64" by simp_all
  have "(e + 2 ^ 63) mod 2 ^ 64 = (e + 2 ^ 63 - 2 ^ 64 + 2 ^ 64) mod 2 ^ 64"
    by (simp add: add.commute)
  also have "\<dots> = e + 2 ^ 63 - 2 ^ 64"
    unfolding mod_add_self2 using e by (intro mod_pos_pos_trivial) simp_all
  finally have "(e + 2 ^ 63) mod 2 ^ 64 = e + 2 ^ 63 - 2 ^ 64" .
  then have "unix_ns (time_Add now ttl) < 0"
    using e by (simp add: unix_ns_wraps time_Add_def e_def [symmetric])
  moreover have "0 \<le> unix_ns t" using assms(5,6) by (simp add: unix_ns_representable)
  ultimately show ?thesis
    using assms(1) by (simp add: lc.contains_result cache_ok_Set unexpired_def lookup_Set)
qed

theorem Set_overflow_never_hits_witness:
  "cache_lookup (Set NewLocalCache ''k'' 9223372036854775807 1700000000000000000) ''k'' \<noteq> None \<and>
   \<not> fst (Contains (Set NewLocalCache ''k'' 9223372036854775807 1700000000000000000) ''k''
        1700000000000000001 0)"
  using Set_overflow_never_hits [OF cache_ok_New, of 1700000000000000000 9223372036854775807
      1700000000000000001 "''k''" 0]
  by (simp add: representable_def time_Add_def)

text \<open>
  The shard of a key is its 64-bit FNV-1a hash modulo 256, and the low byte of that hash
  evolves on its own: the 64-bit loop computes the same index as one that keeps eight bits.
\<close>

fun fnv1a_low :: "8 word \<Rightarrow> string \<Rightarrow> 8 word" where
  "fnv1a_low h [] = h"
| "fnv1a_low h (c # cs) = fnv1a_low ((h XOR byte_of c) * 0xB3) cs"

lemma ucast_low_times: "(ucast (a * b :: 64 word) :: 8 word) = ucast a * ucast b"
proof -
  have "take_bit 8 (take_bit 64 x * take_bit 64 y) = take_bit 8 (x * y)" for x y :: int
    using take_bit_mult [of 8 "take_bit 64 x" "take_bit 64 y"] take_bit_mult [of 8 x y] by simp
  then show ?thesis by transfer simp
qed

lemma ucast_low_xor: "(ucast (a XOR b :: 64 word) :: 8 word) = ucast a XOR ucast b"
  by transfer simp

lemma ucast_low_up: "(ucast (ucast b :: 64 word) :: 8 word) = b"
  by transfer simp

lemma fnv_constants_low:
  "(ucast (1099511628211 :: 64 word) :: 8 word) = 0xB3"
  "(ucast (14695981039346656037 :: 64 word) :: 8 word) = 0x25"
  by simp_all

lemma ucast_fnv1a: "ucast (fnv1a h key) = fnv1a_low (ucast h) key"
  by (induction h key rule: fnv1a.induct)
    (simp_all only: fnv1a.simps fnv1a_low.simps ucast_low_times ucast_low_xor ucast_low_up fnv_constants_low)

lemma shardIndex_low_byte:
  "shardIndex key = fnv1a_low 0x25 key \<and>
   unat (shardIndex key) = unat (fnv1a 14695981039346656037 key) mod 256"
proof -
  have and255: "(x AND 0xFF :: 64 word) = take_bit 8 x" for x
    by (simp add: take_bit_eq_mask mask_eq_exp_minus_1)
  have low: "(ucast (take_bit 8 x :: 64 word) :: 8 word) = ucast x" for x
    by transfer simp
  have "shardIndex key = ucast (fnv1a 14695981039346656037 key)"
    by (simp add: shardIndex_def and255 low)
  moreover have "unat (ucast x :: 8 word) = unat x mod 256" for x :: "64 word"
    by (simp add: unsigned_ucast_eq take_bit_eq_mod unat_mod)
  ultimately show ?thesis
    using ucast_fnv1a [of 14695981039346656037 key] unfolding fnv_constants_low by metis
qed

end
