(* ===== verification/Collectors.thy ===== *)
theory Collectors
  imports Prelude
begin

text \<open>
  The package \<open>internal/metrics\<close>: the six Prometheus collectors, as they are described to the
  registry, and the calls the other packages make on them. \<open>promauto\<close> registers a collector
  when the package is initialised and panics when the registry rejects it; \<open>WithLabelValues\<close>
  panics when it is not given one value per label. The registry itself is library code; the
  conditions its documentation puts on descriptions are stated here as predicates.
\<close>

section \<open>The collectors\<close>

text \<open>Upper bounds of the buckets, in nanoseconds; the source writes them as seconds.\<close>

definition hftBuckets :: "int list" where
  "hftBuckets = [100000, 250000, 500000, 1000000, 2500000, 5000000, 10000000, 25000000, 50000000, 100000000, 250000000]"

datatype opts =
    CounterOpts (Namespace: string) (Name: string) (Help: string)
  | HistogramOpts (Namespace: string) (Name: string) (Help: string) (Buckets: "int list")

record collector =
  co_Opts :: opts
  co_labels :: "string list"

definition RequestsTotal_vec :: collector where
  "RequestsTotal_vec =
     \<lparr>co_Opts = CounterOpts ''dedup'' ''http_requests_total''
        ''Total number of HTTP requests processed, labelled by method, path, and status code.'',
      co_labels = [''method'', ''path'', ''status'']\<rparr>"

definition RequestDuration_vec :: collector where
  "RequestDuration_vec =
     \<lparr>co_Opts = HistogramOpts ''dedup'' ''http_request_duration_seconds''
        ''Histogram of HTTP request durations in seconds.'' hftBuckets,
      co_labels = [''method'', ''path'']\<rparr>"

definition DedupChecksTotal_vec :: collector where
  "DedupChecksTotal_vec =
     \<lparr>co_Opts = CounterOpts ''dedup'' ''checks_total''
        ''Total dedup checks by outcome: allowed, duplicate, error, excluded.'',
      co_labels = [''outcome'']\<rparr>"

definition StoreLatency_vec :: collector where
  "StoreLatency_vec =
     \<lparr>co_Opts = HistogramOpts ''dedup'' ''store_latency_seconds''
        ''Histogram of store (Redis) operation durations.'' hftBuckets,
      co_labels = [''operation'']\<rparr>"

definition CacheHitsTotal_counter :: collector where
  "CacheHitsTotal_counter =
     \<lparr>co_Opts = CounterOpts ''dedup'' ''cache_hits_total'' ''Total L1 cache hits (Redis round-trip avoided).'',
      co_labels = []\<rparr>"

definition CacheMissesTotal_counter :: collector where
  "CacheMissesTotal_counter =
     \<lparr>co_Opts = CounterOpts ''dedup'' ''cache_misses_total'' ''Total L1 cache misses (fell through to Redis).'',
      co_labels = []\<rparr>"

lemmas collector_defs = RequestsTotal_vec_def RequestDuration_vec_def DedupChecksTotal_vec_def StoreLatency_vec_def
  CacheHitsTotal_counter_def CacheMissesTotal_counter_def

text \<open>In the order in which the package variables are initialised.\<close>

definition collectors :: "collector list" where
  "collectors =
     [RequestsTotal_vec, RequestDuration_vec, DedupChecksTotal_vec, StoreLatency_vec, CacheHitsTotal_counter,
      CacheMissesTotal_counter]"

section \<open>Calls on the collectors\<close>

datatype counter =
    RequestsTotal string string string
  | DedupChecksTotal string
  | CacheHitsTotal
  | CacheMissesTotal

datatype histogram =
    RequestDuration string string
  | StoreLatency string

fun counter_call :: "counter \<Rightarrow> collector \<times> string list" where
  "counter_call (RequestsTotal m p s) = (RequestsTotal_vec, [m, p, s])"
| "counter_call (DedupChecksTotal s) = (DedupChecksTotal_vec, [s])"
| "counter_call CacheHitsTotal = (CacheHitsTotal_counter, [])"
| "counter_call CacheMissesTotal = (CacheMissesTotal_counter, [])"

fun histogram_call :: "histogram \<Rightarrow> collector \<times> string list" where
  "histogram_call (RequestDuration m p) = (RequestDuration_vec, [m, p])"
| "histogram_call (StoreLatency s) = (StoreLatency_vec, [s])"

section \<open>What the registry asks for\<close>

text \<open>\<open>prometheus.BuildFQName\<close> with an empty subsystem.\<close>

definition fqName :: "opts \<Rightarrow> string" where
  "fqName op = Namespace op @ ''_'' @ Name op"

definition name_start :: "char \<Rightarrow> bool" where
  "name_start c \<longleftrightarrow> c \<in> set ''abcdefghijklmnopqrstuvwxyzABCDEFGHIJKLMNOPQRSTUVWXYZ_''"

definition name_char :: "char \<Rightarrow> bool" where
  "name_char c \<longleftrightarrow> name_start c \<or> c \<in> set ''0123456789''"

fun valid_name :: "string \<Rightarrow> bool" where
  "valid_name [] \<longleftrightarrow> False"
| "valid_name (c # cs) \<longleftrightarrow> name_start c \<and> list_all name_char cs"

text \<open>
  Label names starting with two underscores are reserved, and a histogram reserves \<open>le\<close> for its
  buckets, whose bounds must increase.
\<close>

definition valid_label :: "string \<Rightarrow> bool" where
  "valid_label l \<longleftrightarrow> valid_name l \<and> take 2 l \<noteq> ''__''"

definition valid_collector :: "collector \<Rightarrow> bool" where
  "valid_collector c \<longleftrightarrow>
     valid_name (fqName (co_Opts c)) \<and> list_all valid_label (co_labels c) \<and> distinct (co_labels c) \<and>
     (case co_Opts c of
        CounterOpts _ _ _ \<Rightarrow> True
      | HistogramOpts _ _ _ bs \<Rightarrow> ''le'' \<notin> set (co_labels c) \<and> bs \<noteq> [] \<and> sorted_wrt (<) bs)"

text \<open>\<open>WithLabelValues\<close> finds the collector registered and gets one value per label.\<close>

definition valid_call :: "collector \<times> string list \<Rightarrow> bool" where
  "valid_call call \<longleftrightarrow> fst call \<in> set collectors \<and> length (snd call) = length (co_labels (fst call))"

section \<open>Properties\<close>

lemma collectors_valid: "list_all valid_collector collectors"
  by (simp add: collectors_def collector_defs valid_collector_def valid_label_def fqName_def name_start_def
      name_char_def hftBuckets_def)

lemma collectors_distinct: "distinct (map (fqName \<circ> co_Opts) collectors)"
  by (simp add: collectors_def collector_defs fqName_def)

lemma counter_call_valid: "valid_call (counter_call c)"
  by (cases c) (simp_all add: valid_call_def collectors_def, simp_all add: collector_defs)

lemma histogram_call_valid: "valid_call (histogram_call h)"
  by (cases h) (simp_all add: valid_call_def collectors_def, simp_all add: collector_defs)


end
