(* ===== verification/Effects.thy ===== *)
theory Effects
  imports Go_Time Collectors
begin

text \<open>
  What the service says to the libraries it only calls: the Prometheus metrics of the theory
  \<open>Collectors\<close>, the zerolog logger and the response side of a gin context.
  None of these calls returns anything the service acts on, apart from the status a response
  has, so that an operation is modelled with the list of the calls it makes, in order.
\<close>

section \<open>Log lines\<close>

datatype level = DebugLevel | InfoLevel | WarnLevel | ErrorLevel

fun level_num :: "level \<Rightarrow> nat" where
  "level_num DebugLevel = 0"
| "level_num InfoLevel = 1"
| "level_num WarnLevel = 2"
| "level_num ErrorLevel = 3"

lemma level_num_inject [simp]: "level_num a = level_num b \<longleftrightarrow> a = b"
  by (cases a; cases b) simp_all

instantiation level :: linorder
begin

definition less_eq_level :: "level \<Rightarrow> level \<Rightarrow> bool" where
  "less_eq_level a b \<longleftrightarrow> level_num a \<le> level_num b"

definition less_level :: "level \<Rightarrow> level \<Rightarrow> bool" where
  "less_level a b \<longleftrightarrow> level_num a < level_num b"

instance
  by standard (auto simp: less_eq_level_def less_level_def)

end

datatype field =
    Str string string
  | Strs string "string list"
  | Bool string bool
  | IntField string int
  | Int64 string int64
  | ErrField error
  | Interface string

section \<open>Calls on the response\<close>

datatype json_value = JString string | JInt int

type_synonym json_object = "(string \<times> json_value) list"

text \<open>
  The settings of the rotating log file and of the HTTP server, as they are handed to the libraries.
\<close>

record lumberjack_Logger =
  Filename :: string
  MaxSize :: int
  MaxBackups :: int
  MaxAge :: int
  Compress :: bool

record http_server =
  sv_Addr :: string
  sv_ReadTimeout :: duration
  sv_WriteTimeout :: duration
  sv_IdleTimeout :: duration
  sv_MinVersion :: "16 word option"

text \<open>
  \<open>Header\<close>, \<open>Status\<close>, \<open>Data\<close>, \<open>JSON\<close>, \<open>AbortWithStatusJSON\<close> and
  \<open>Set\<close> of \<open>*gin.Context\<close>; \<open>Forwarded\<close> stands for a request that a wrapped
  library handler (\<open>/metrics\<close> and the profiler) answers; the rest are the process-wide
  calls of \<open>run\<close>: settings, the log file, listening and the graceful shutdown with its
  timeout.
\<close>

datatype event =
    Inc counter
  | Observe histogram duration
  | Log level "field list" string
  | CtxSet string string
  | Header string string
  | Status int
  | Data int string string
  | JSON int json_object
  | AbortWithStatusJSON int json_object
  | Forwarded string
  | SetGlobalLevel int
  | SetGCPercent int
  | SetMode string
  | OpenLog lumberjack_Logger
  | CloseLog
  | ListenAndServe http_server
  | ListenAndServeTLS http_server string string
  | Shutdown duration

fun response_code :: "event \<Rightarrow> int option" where
  "response_code (Status n) = Some n"
| "response_code (Data n ct b) = Some n"
| "response_code (JSON n j) = Some n"
| "response_code (AbortWithStatusJSON n j) = Some n"
| "response_code _ = None"

text \<open>The status codes a list of calls asks for, in order.\<close>

definition response_codes :: "event list \<Rightarrow> int list" where
  "response_codes es = List.map_filter response_code es"

lemma response_codes_simps [simp]:
  "response_codes [] = []"
  "response_codes (e # es) = (case response_code e of None \<Rightarrow> [] | Some n \<Rightarrow> [n]) @ response_codes es"
  "response_codes (es @ fs) = response_codes es @ response_codes fs"
  by (simp_all add: response_codes_def List.map_filter_def split: option.split)

text \<open>The increments of the outcome counter in a list of calls.\<close>

fun outcome_of :: "event \<Rightarrow> string option" where
  "outcome_of (Inc (DedupChecksTotal s)) = Some s"
| "outcome_of _ = None"

definition outcomes :: "event list \<Rightarrow> string list" where
  "outcomes es = List.map_filter outcome_of es"

lemma outcomes_simps [simp]:
  "outcomes [] = []"
  "outcomes (e # es) = (case outcome_of e of None \<Rightarrow> [] | Some s \<Rightarrow> [s]) @ outcomes es"
  "outcomes (es @ fs) = outcomes es @ outcomes fs"
  by (simp_all add: outcomes_def List.map_filter_def split: option.split)

text \<open>The increments of the request counter, with their labels.\<close>

fun request_of :: "event \<Rightarrow> (string \<times> string \<times> string) option" where
  "request_of (Inc (RequestsTotal m p s)) = Some (m, p, s)"
| "request_of _ = None"

definition requests :: "event list \<Rightarrow> (string \<times> string \<times> string) list" where
  "requests es = List.map_filter request_of es"

lemma requests_simps [simp]:
  "requests [] = []"
  "requests (e # es) = (case request_of e of None \<Rightarrow> [] | Some q \<Rightarrow> [q]) @ requests es"
  "requests (es @ fs) = requests es @ requests fs"
  by (simp_all add: requests_def List.map_filter_def split: option.split)

end
