(* ===== verification/Cached_Store.thy ===== *)
theory Cached_Store
  imports Store Local_Cache Effects
begin

text \<open>
  The file \<open>internal/store/cached_store.go\<close>: a store with the local cache in front of it. The
  backend is an argument of the operations, so that what is proved of the cached store rests on
  the contract of its backend alone and holds of both stores. With a backend that blocks
  duplicates the cached store blocks them too; it does not keep the second half of the contract,
  because an entry the cache makes for a duplicate lasts a full time to live from then on.
\<close>

section \<open>State and operations\<close>

record 's CachedStore =
  backend :: 's
  cache :: LocalCache
  sweeping :: bool

text \<open>
  \<open>sweeping\<close>: the sweeper goroutine runs, which \<open>cancel\<close> ends. The interval of its
  ticker is a constant.
\<close>

definition sweep_interval :: duration where
  "sweep_interval = 10 * Second"

definition NewCached :: "'s \<Rightarrow> 's CachedStore" where
  "NewCached b = \<lparr>backend = b, cache = NewLocalCache, sweeping = True\<rparr>"

text \<open>
  The clock readings of one call: the cache lookup, the second reading before a lazy eviction,
  the moment the backend acts, and the assignment to the cache.
\<close>

record readings =
  rd_now :: time
  rd_evict :: time
  rd_store :: time
  rd_set :: time

definition CachedStore_IsDuplicate ::
  "('s, time) is_dup_op \<Rightarrow> 's CachedStore \<Rightarrow> ctx \<Rightarrow> string \<Rightarrow> duration \<Rightarrow> readings \<Rightarrow>
   dup_result \<times> 's CachedStore \<times> event list" where
  "CachedStore_IsDuplicate f s ctx key ttl x =
     (let (hit, c1) = Contains (cache s) key (rd_now x) (rd_evict x);
          s1 = s\<lparr>cache := c1\<rparr>
      in if hit then ((True, None), s1, [Inc CacheHitsTotal])
         else
           let ((isDup, err), b') = f (backend s1) ctx key ttl (rd_store x);
               s2 = s1\<lparr>backend := b'\<rparr>
           in case err of
                Some e \<Rightarrow> ((isDup, Some e), s2, [Inc CacheMissesTotal])
              | None \<Rightarrow> ((isDup, None), s2\<lparr>cache := Set (cache s2) key ttl (rd_set x)\<rparr>, [Inc CacheMissesTotal]))"

definition CachedStore_Ping ::
  "('s \<Rightarrow> ctx \<Rightarrow> error option \<times> 's) \<Rightarrow> 's CachedStore \<Rightarrow> ctx \<Rightarrow> error option \<times> 's CachedStore" where
  "CachedStore_Ping p s ctx = (let (err, b') = p (backend s) ctx in (err, s\<lparr>backend := b'\<rparr>))"

definition CachedStore_Close ::
  "('s \<Rightarrow> error option \<times> 's) \<Rightarrow> 's CachedStore \<Rightarrow> error option \<times> 's CachedStore" where
  "CachedStore_Close cl s =
     (let s1 = s\<lparr>sweeping := False\<rparr>; (err, b') = cl (backend s1) in (err, s1\<lparr>backend := b'\<rparr>))"

definition CacheLen :: "'s CachedStore \<Rightarrow> nat" where
  "CacheLen s = Len (cache s)"

text \<open>A tick of the sweeper, as long as it runs.\<close>

definition sweep_tick :: "'s CachedStore \<Rightarrow> time \<Rightarrow> 's CachedStore" where
  "sweep_tick s now =
     s\<lparr>cache := fst (SweepLoop (if sweeping s then [Tick now] else [CtxDone, Tick now]) (cache s))\<rparr>"

section \<open>The cases of a call\<close>

text \<open>The result and the new state of a call, without its metrics.\<close>

definition cached_op :: "('s, time) is_dup_op \<Rightarrow> ('s CachedStore, readings) is_dup_op" where
  "cached_op f s ctx key ttl x =
     (let (r, s', _) = CachedStore_IsDuplicate f s ctx key ttl x in (r, s'))"

lemma cached_op_cases:
  assumes "cached_op f s c k d x = (r, s')"
  obtains
    (hit) "fst (Contains (cache s) k (rd_now x) (rd_evict x))" "r = duplicate" "backend s' = backend s"
      "cache s' = snd (Contains (cache s) k (rd_now x) (rd_evict x))"
  | (err) b e where "\<not> fst (Contains (cache s) k (rd_now x) (rd_evict x))"
      "f (backend s) c k d (rd_store x) = ((b, Some e), backend s')" "r = (b, Some e)"
      "cache s' = snd (Contains (cache s) k (rd_now x) (rd_evict x))"
  | (miss) b where "\<not> fst (Contains (cache s) k (rd_now x) (rd_evict x))"
      "f (backend s) c k d (rd_store x) = ((b, None), backend s')" "r = (b, None)"
      "cache s' = Set (snd (Contains (cache s) k (rd_now x) (rd_evict x))) k d (rd_set x)"
  using assms
  by (auto simp: cached_op_def CachedStore_IsDuplicate_def Let_def split: prod.splits if_splits option.splits)

lemma cached_op_allowed:
  "cached_op f s c k d x = (allowed, s') \<Longrightarrow> f (backend s) c k d (rd_store x) = (allowed, backend s')"
  by (erule cached_op_cases) simp_all

lemma cached_op_backend:
  "cached_op f s c k d x = (r, s') \<Longrightarrow>
   backend s' = backend s \<or> f (backend s) c k d (rd_store x) = (r, backend s')"
  by (erule cached_op_cases) simp_all

lemma cached_op_cache_ok: "cached_op f s c k d x = (r, s') \<Longrightarrow> cache_ok (cache s) \<Longrightarrow> cache_ok (cache s')"
  by (erule cached_op_cases) (simp_all add: lc.invar_contains lc.invar_set)

section \<open>What a backend's contract gives the cached store\<close>

text \<open>
  The keys the cached store answers "duplicate" for: those of the backend and the entries of the
  cache. The readings of a call are in range when they are in order and fit in 64 bits.
\<close>

definition cached_held :: "('s \<Rightarrow> string \<Rightarrow> time \<Rightarrow> bool) \<Rightarrow> 's CachedStore \<Rightarrow> string \<Rightarrow> time \<Rightarrow> bool" where
  "cached_held held s k u \<longleftrightarrow>
     held (backend s) k u \<or> (case cache_lookup (cache s) k of None \<Rightarrow> False | Some e \<Rightarrow> u < sint e)"

definition readings_ok :: "(duration \<Rightarrow> time \<Rightarrow> bool) \<Rightarrow> duration \<Rightarrow> readings \<Rightarrow> bool" where
  "readings_ok ok d x \<longleftrightarrow> ok d (rd_store x) \<and> 0 \<le> sint d \<and>
     rd_now x \<le> rd_store x \<and> rd_store x \<le> rd_set x \<and> representable (rd_now x) \<and> representable (rd_set x)"

lemma lookup_after_Contains:
  "cache_ok c \<Longrightarrow> cache_lookup (snd (Contains c k t t')) k' \<in> {None, cache_lookup c k'}"
  using lc.contains_keeps [of c t' k t] by (auto simp: agrees_at_def)

lemma hit_lookup:
  assumes "fst (Contains c k t t')" and "representable t"
  shows "case cache_lookup c k of None \<Rightarrow> False | Some e \<Rightarrow> t < sint e"
  using assms
  by (auto simp: Contains_def Contains_read_eq unix_ns_representable split: option.splits if_splits)

locale cached_backend = dedup_store is_dup "\<lambda>t. t" ok held
  for is_dup :: "'s \<Rightarrow> ctx \<Rightarrow> string \<Rightarrow> duration \<Rightarrow> time \<Rightarrow> dup_result \<times> 's"
    and ok :: "duration \<Rightarrow> time \<Rightarrow> bool" and held :: "'s \<Rightarrow> string \<Rightarrow> time \<Rightarrow> bool"
begin

lemma cached_held_by_call:
  assumes call: "cached_op is_dup s c k d x = (r, s')" and inv: "cache_ok (cache s)"
    and x: "readings_ok ok d x" and u: "rd_set x \<le> u" and held': "cached_held held s' k' u"
  shows "cached_held held s k' u \<or> (k' = k \<and> u \<le> rd_set x + sint d)"
proof -
  let ?c1 = "snd (Contains (cache s) k (rd_now x) (rd_evict x))"
  have ok1: "cache_ok ?c1" using inv by (rule lc.invar_contains)
  have kept: "held (backend s') k' u \<Longrightarrow> held (backend s) k' u \<or> (k' = k \<and> u \<le> rd_set x + sint d)"
    using cached_op_backend [OF call] held_by_call [of "backend s" c k d "rd_store x" r "backend s'" u k'] x u
    by (auto simp: readings_ok_def)
  have exp: "unix_ns (time_Add (rd_set x) d) \<le> rd_set x + sint d"
    using x unix_ns_le [of "time_Add (rd_set x) d"] by (simp add: readings_ok_def representable_def time_Add_def)
  have "cache_lookup (cache s') k' \<in> {None, cache_lookup (cache s) k'} \<or>
      (k' = k \<and> cache_lookup (cache s') k' = Some (UnixNano (time_Add (rd_set x) d)))"
    using call lookup_after_Contains [OF inv, of k "rd_now x" "rd_evict x" k'] lc.set_maps [OF ok1]
    by (cases rule: cached_op_cases) auto
  with kept exp held' show ?thesis by (auto simp: cached_held_def split: option.splits)
qed

end

sublocale cached_backend \<subseteq> cached_blocks: blocking_store "cached_op is_dup" rd_store
  "\<lambda>d x. ok d (rd_store x)" "\<lambda>s. held (backend s)"
proof (unfold_locales, goal_cases)
  case 1 then show ?case by (rule held_until)
next
  case 2 then show ?case using cached_op_allowed new_was_free by blast
next
  case 3 then show ?case using cached_op_allowed new_is_held by blast
next
  case 4 then show ?case using cached_op_backend held_stays by metis
qed

sublocale cached_backend \<subseteq> cached_tracks: tracking_store "cached_op is_dup" rd_now rd_set
  "readings_ok ok" "cached_held held" "\<lambda>s. cache_ok (cache s)"
proof (unfold_locales, goal_cases)
  case 1 then show ?case by (rule cached_op_cache_ok)
next
  case (2 s c k d x s')
  from 2(1) show ?case
  proof (cases rule: cached_op_cases)
    case hit
    with 2(3) show ?thesis
      using hit_lookup by (auto simp: cached_held_def readings_ok_def)
  next
    case (miss b)
    with 2(3) have "held (backend s) k (rd_store x)"
      using dup_was_held [of "backend s" c k d "rd_store x"] by (simp add: readings_ok_def)
    with 2(3) held_until show ?thesis by (auto simp: cached_held_def readings_ok_def)
  qed simp
next
  case 3 then show ?case by (rule cached_held_by_call)
qed

context cached_backend
begin

lemmas cached_allowed_then_blocked = cached_blocks.allowed_then_blocked

lemmas cached_contract = cached_blocks.blocking_store_axioms

lemmas cached_tracking = cached_tracks.tracking_store_axioms

lemmas cached_dup_was_asked = cached_tracks.dup_was_asked

end

interpretation cmem: cached_backend Memory_IsDuplicate "\<lambda>d t. True" memory_held
  by unfold_locales

lemma cached_redis_contract:
  "redis_set_nx R ex \<Longrightarrow>
   cached_backend (Redis_IsDuplicate R) (\<lambda>d t. redis_ttl_ok d) (\<lambda>s. ex (client s))"
  by (simp add: cached_backend_def redis_store_contract)

lemma cached_op_eq: "cached_op f s c k d x = (r, s') \<longleftrightarrow> (\<exists>ev. CachedStore_IsDuplicate f s c k d x = (r, s', ev))"
  by (auto simp: cached_op_def split: prod.splits)

lemma Contains_hit: "unexpired (cache_lookup c) k t \<Longrightarrow> Contains c k t t' = (True, c)"
  by (auto simp: Contains_def Contains_read_eq unexpired_def split: option.splits)

lemma Contains_New: "Contains NewLocalCache k t t' = (False, NewLocalCache)"
  by (simp add: Contains_def Contains_read_eq lookup_New)

lemma cached_op_New:
  "f b c k d (rd_store x) = ((dup, None), b') \<Longrightarrow>
   cached_op f (NewCached b) c k d x =
     ((dup, None), \<lparr>backend = b', cache = Set NewLocalCache k d (rd_set x), sweeping = True\<rparr>)"
  by (simp add: cached_op_def CachedStore_IsDuplicate_def NewCached_def Contains_New)

section \<open>Properties\<close>

text \<open>
  C4: one request per window, through the cache and Redis. With a Redis client that treats
  \<open>SET NX PX\<close> as documented, a key that the cached store allowed is not allowed again before
  its time to live is over, whatever is asked in between, whether the cache or Redis answers, and
  even when Redis fails in between.
\<close>

theorem cached_redis_one_allowed_per_window:
  assumes "redis_set_nx R ex" and "cached_op (Redis_IsDuplicate R) s ctx k d x = (allowed, s')"
    and "redis_ttl_ok d" and "rd_store x \<le> u" and "u < rd_store x + sint d"
    and "\<forall>c \<in> set cs. redis_ttl_ok (dc_ttl c) \<and> rd_store (dc_time c) \<le> u"
  shows "\<forall>(c, r) \<in> set (fst (run_store (cached_op (Redis_IsDuplicate R)) s' cs)). dc_key c = k \<longrightarrow> r \<noteq> allowed"
  by (rule cached_backend.cached_allowed_then_blocked [OF cached_redis_contract [OF assms(1)] assms(2-6)])

theorem cached_redis_one_allowed_per_window_witness:
  "snd (hd (fst (run_store (cached_op (Redis_IsDuplicate server_client))
      \<lparr>backend = \<lparr>client = \<lparr>rs_data = [''k'' \<mapsto> 10000000], rs_up = True\<rparr>\<rparr>,
       cache = Set NewLocalCache ''k'' 10000000 0, sweeping = True\<rparr>
      [\<lparr>dc_ctx = None, dc_key = ''k'', dc_ttl = 10000000,
        dc_time = \<lparr>rd_now = 40, rd_evict = 40, rd_store = 41, rd_set = 42\<rparr>\<rparr>]))) \<noteq> allowed"
  (is "snd (hd (fst (run_store ?f ?s [?c]))) \<noteq> _")
proof -
  let ?x = "\<lparr>rd_now = 0, rd_evict = 0, rd_store = 0, rd_set = 0\<rparr>"
  have "?f (NewCached \<lparr>client = \<lparr>rs_data = Map.empty, rs_up = True\<rparr>\<rparr>) None ''k'' 10000000 ?x = (allowed, ?s)"
    by (rule trans [OF cached_op_New [where dup = False and b' = "\<lparr>client = \<lparr>rs_data = [''k'' \<mapsto> 10000000], rs_up = True\<rparr>\<rparr>"]])
      (simp_all add: Redis_IsDuplicate_def server_client_def server_SetArgs_def server_ex_def)
  then have "\<forall>(c, r) \<in> set (fst (run_store ?f ?s [?c])). dc_key c = ''k'' \<longrightarrow> r \<noteq> allowed"
    by (rule cached_redis_one_allowed_per_window [OF server_set_nx, where u = 50])
      (simp_all add: redis_ttl_ok_def)
  from bspec [OF this run_store_hd(1)] show ?thesis
    using run_store_hd(2) [of ?f ?s ?c "[]"] by (simp add: case_prod_beta del: run_store.simps)
qed

text \<open>
  C14: who answers. A key with an unexpired entry in the cache is a duplicate without any call to
  the backend, and nothing changes but the hit counter, also when the backend is down; in every
  other case the answer, its error included, is the backend's.
\<close>

theorem cached_hit_or_backend:
  "(if unexpired (cache_lookup (cache s)) key (rd_now x)
    then CachedStore_IsDuplicate f s ctx key ttl x = (duplicate, s, [Inc CacheHitsTotal])
    else fst (CachedStore_IsDuplicate f s ctx key ttl x) = fst (f (backend s) ctx key ttl (rd_store x)) \<and>
      backend (fst (snd (CachedStore_IsDuplicate f s ctx key ttl x))) =
        snd (f (backend s) ctx key ttl (rd_store x)) \<and>
      snd (snd (CachedStore_IsDuplicate f s ctx key ttl x)) = [Inc CacheMissesTotal])"
proof (cases "unexpired (cache_lookup (cache s)) key (rd_now x)")
  case True
  then show ?thesis by (simp add: CachedStore_IsDuplicate_def Contains_hit)
next
  case False
  then have "\<not> fst (Contains (cache s) key (rd_now x) (rd_evict x))"
    by (auto simp: Contains_def Contains_read_eq unexpired_def split: option.splits)
  with False show ?thesis
    by (auto simp: CachedStore_IsDuplicate_def Let_def split: prod.splits option.splits)
qed







end
