(* ===== verification/Store_Interface.thy ===== *)
theory Store_Interface
  imports Cached_Store
begin

text \<open>
  The interface \<open>Store\<close> of \<open>internal/store/store.go\<close> as the handlers see it. A value
  of the interface is one of the three implementations, the way \<open>cmd/server/main.go\<close> builds
  them: Redis or memory, bare or behind the local cache; a method call dispatches on it. The
  blocking half of the contract holds of all of them at once.
\<close>

section \<open>Dynamic dispatch\<close>

datatype 'r backend_store = RedisBackend "'r RedisStore" | MemoryBackend MemoryStore

datatype 'r store = Bare "'r backend_store" | WithCache "'r backend_store CachedStore"

fun backend_IsDuplicate :: "'r redis_client \<Rightarrow> ('r backend_store, time) is_dup_op" where
  "backend_IsDuplicate R (RedisBackend s) ctx key ttl now =
     (let (r, s') = Redis_IsDuplicate R s ctx key ttl now in (r, RedisBackend s'))"
| "backend_IsDuplicate R (MemoryBackend m) ctx key ttl now =
     (let (r, m') = Memory_IsDuplicate m ctx key ttl now in (r, MemoryBackend m'))"

fun backend_Ping :: "'r redis_client \<Rightarrow> 'r backend_store \<Rightarrow> ctx \<Rightarrow> error option \<times> 'r backend_store" where
  "backend_Ping R (RedisBackend s) ctx = (let (e, s') = Redis_Ping R s ctx in (e, RedisBackend s'))"
| "backend_Ping R (MemoryBackend m) ctx = (let (e, m') = Memory_Ping m ctx in (e, MemoryBackend m'))"

fun backend_Close :: "'r redis_client \<Rightarrow> 'r backend_store \<Rightarrow> error option \<times> 'r backend_store" where
  "backend_Close R (RedisBackend s) = (let (e, s') = Redis_Close R s in (e, RedisBackend s'))"
| "backend_Close R (MemoryBackend m) = (let (e, m') = Memory_Close m in (e, MemoryBackend m'))"

fun Store_IsDuplicate ::
  "'r redis_client \<Rightarrow> 'r store \<Rightarrow> ctx \<Rightarrow> string \<Rightarrow> duration \<Rightarrow> readings \<Rightarrow> dup_result \<times> 'r store \<times> event list" where
  "Store_IsDuplicate R (Bare b) ctx key ttl x =
     (let (r, b') = backend_IsDuplicate R b ctx key ttl (rd_store x) in (r, Bare b', []))"
| "Store_IsDuplicate R (WithCache s) ctx key ttl x =
     (let (r, s', ev) = CachedStore_IsDuplicate (backend_IsDuplicate R) s ctx key ttl x in (r, WithCache s', ev))"

fun Store_Ping :: "'r redis_client \<Rightarrow> 'r store \<Rightarrow> ctx \<Rightarrow> error option \<times> 'r store" where
  "Store_Ping R (Bare b) ctx = (let (e, b') = backend_Ping R b ctx in (e, Bare b'))"
| "Store_Ping R (WithCache s) ctx = (let (e, s') = CachedStore_Ping (backend_Ping R) s ctx in (e, WithCache s'))"

fun Store_Close :: "'r redis_client \<Rightarrow> 'r store \<Rightarrow> error option \<times> 'r store" where
  "Store_Close R (Bare b) = (let (e, b') = backend_Close R b in (e, Bare b'))"
| "Store_Close R (WithCache s) = (let (e, s') = CachedStore_Close (backend_Close R) s in (e, WithCache s'))"

section \<open>The contract\<close>

fun backend_held :: "('r \<Rightarrow> string \<Rightarrow> time \<Rightarrow> bool) \<Rightarrow> 'r backend_store \<Rightarrow> string \<Rightarrow> time \<Rightarrow> bool" where
  "backend_held ex (RedisBackend s) = ex (client s)"
| "backend_held ex (MemoryBackend m) = memory_held m"

lemma backend_contract:
  assumes "redis_set_nx R ex"
  shows "dedup_store (backend_IsDuplicate R) (\<lambda>t. t) (\<lambda>d t. redis_ttl_ok d) (backend_held ex)"
proof -
  note red = redis_store_contract [OF assms]
  note redb = red [THEN dedup_store.axioms(1)]
  note redt = red [THEN dedup_store.axioms(2)]
  show ?thesis
  proof (unfold_locales, goal_cases)
    case (1 s) then show ?case by (cases s) (auto intro: blocking_store.held_until [OF redb] mem.held_until)
  next
    case (2 s) then show ?case
      by (cases s) (auto split: prod.splits dest: blocking_store.new_was_free [OF redb] mem.new_was_free)
  next
    case (3 s) then show ?case
      by (cases s) (auto split: prod.splits intro: blocking_store.new_is_held [OF redb] mem.new_is_held)
  next
    case (4 s) then show ?case
      by (cases s) (auto split: prod.splits intro: blocking_store.held_stays [OF redb] mem.held_stays)
  next
    case 5 then show ?case by simp
  next
    case (6 s) then show ?case
      by (cases s) (auto split: prod.splits intro: tracking_store.dup_was_held [OF redt] mem.dup_was_held)
  next
    case (7 s) then show ?case
      by (cases s) (auto split: prod.splits dest: tracking_store.held_by_call [OF redt] mem.held_by_call)
  next
    case (8 s) then show ?case
      by (cases s) (auto split: prod.splits intro: dedup_store.dup_adds_nothing [OF red] mem.dup_adds_nothing)
  qed
qed

definition store_op :: "'r redis_client \<Rightarrow> ('r store, readings) is_dup_op" where
  "store_op R s ctx key ttl x = (let (r, s', _) = Store_IsDuplicate R s ctx key ttl x in (r, s'))"

lemma store_op_simps:
  "store_op R (Bare b) ctx key ttl x = apsnd Bare (backend_IsDuplicate R b ctx key ttl (rd_store x))"
  "store_op R (WithCache s) ctx key ttl x = apsnd WithCache (cached_op (backend_IsDuplicate R) s ctx key ttl x)"
  by (simp_all add: store_op_def cached_op_def split: prod.split)

text \<open>What the shared part of a store holds: the cache of one process is not counted.\<close>

fun store_held :: "('r \<Rightarrow> string \<Rightarrow> time \<Rightarrow> bool) \<Rightarrow> 'r store \<Rightarrow> string \<Rightarrow> time \<Rightarrow> bool" where
  "store_held ex (Bare b) = backend_held ex b"
| "store_held ex (WithCache s) = backend_held ex (backend s)"

lemma store_contract:
  assumes "redis_set_nx R ex"
  shows "blocking_store (store_op R) rd_store (\<lambda>d x. redis_ttl_ok d) (store_held ex)"
proof -
  note bk = backend_contract [OF assms, THEN dedup_store.axioms(1)]
  have "cached_backend (backend_IsDuplicate R) (\<lambda>d t. redis_ttl_ok d) (backend_held ex)"
    using backend_contract [OF assms] by (simp add: cached_backend_def)
  note ca = cached_backend.cached_contract [OF this]
  show ?thesis
  proof (unfold_locales, goal_cases)
    case (1 s) then show ?case by (cases s) (auto intro: blocking_store.held_until [OF bk])
  next
    case (2 s) then show ?case
      by (cases s) (auto simp: store_op_simps apsnd_def map_prod_def split: prod.splits
          dest: blocking_store.new_was_free [OF bk] blocking_store.new_was_free [OF ca])
  next
    case (3 s) then show ?case
      by (cases s) (auto simp: store_op_simps apsnd_def map_prod_def split: prod.splits
          intro: blocking_store.new_is_held [OF bk] blocking_store.new_is_held [OF ca])
  next
    case (4 s) then show ?case
      by (cases s) (auto simp: store_op_simps apsnd_def map_prod_def split: prod.splits
          intro: blocking_store.held_stays [OF bk] blocking_store.held_stays [OF ca])
  qed
qed

interpretation sv: blocking_store "store_op server_client" rd_store "\<lambda>d x. redis_ttl_ok d" "store_held server_ex"
  by (rule store_contract [OF server_set_nx])

end
