(* ===== verification/Sha256.thy ===== *)
theory Sha256
  imports Prelude
begin

text \<open>
  SHA-256 as the Go standard library provides it (package \<open>crypto/sha256\<close>, the \<open>hash.Hash\<close>
  interface): a digest object with a chaining value, a buffer of fewer than 64 pending bytes and
  a 64-bit length, with the operations \<open>Reset\<close>, \<open>Write\<close> and \<open>Sum\<close>. The
  functions of the compression step follow FIPS 180-4. The theory shows that a digest fed in any
  number of pieces returns the hash of their concatenation, whatever the object held before its
  \<open>Reset\<close>, and states that contract as the locale \<open>hash_object\<close>, which the fingerprint
  functions are verified against.
\<close>

section \<open>The compression function\<close>

type_synonym u32 = "32 word"
type_synonym chain = "u32 list"

definition K256 :: "u32 list" where
  "K256 =
    [0x428A2F98, 0x71374491, 0xB5C0FBCF, 0xE9B5DBA5, 0x3956C25B, 0x59F111F1,
     0x923F82A4, 0xAB1C5ED5, 0xD807AA98, 0x12835B01, 0x243185BE, 0x550C7DC3,
     0x72BE5D74, 0x80DEB1FE, 0x9BDC06A7, 0xC19BF174, 0xE49B69C1, 0xEFBE4786,
     0x0FC19DC6, 0x240CA1CC, 0x2DE92C6F, 0x4A7484AA, 0x5CB0A9DC, 0x76F988DA,
     0x983E5152, 0xA831C66D, 0xB00327C8, 0xBF597FC7, 0xC6E00BF3, 0xD5A79147,
     0x06CA6351, 0x14292967, 0x27B70A85, 0x2E1B2138, 0x4D2C6DFC, 0x53380D13,
     0x650A7354, 0x766A0ABB, 0x81C2C92E, 0x92722C85, 0xA2BFE8A1, 0xA81A664B,
     0xC24B8B70, 0xC76C51A3, 0xD192E819, 0xD6990624, 0xF40E3585, 0x106AA070,
     0x19A4C116, 0x1E376C08, 0x2748774C, 0x34B0BCB5, 0x391C0CB3, 0x4ED8AA4A,
     0x5B9CCA4F, 0x682E6FF3, 0x748F82EE, 0x78A5636F, 0x84C87814, 0x8CC70208,
     0x90BEFFFA, 0xA4506CEB, 0xBEF9A3F7, 0xC67178F2]"

definition init256 :: chain where
  "init256 =
    [0x6A09E667, 0xBB67AE85, 0x3C6EF372, 0xA54FF53A, 0x510E527F, 0x9B05688C,
     0x1F83D9AB, 0x5BE0CD19]"

definition Ch :: "u32 \<Rightarrow> u32 \<Rightarrow> u32 \<Rightarrow> u32" where
  "Ch x y z = (x AND y) XOR (NOT x AND z)"

definition Maj :: "u32 \<Rightarrow> u32 \<Rightarrow> u32 \<Rightarrow> u32" where
  "Maj x y z = (x AND y) XOR (x AND z) XOR (y AND z)"

definition Sigma0 :: "u32 \<Rightarrow> u32" where
  "Sigma0 x = word_rotr 2 x XOR word_rotr 13 x XOR word_rotr 22 x"

definition Sigma1 :: "u32 \<Rightarrow> u32" where
  "Sigma1 x = word_rotr 6 x XOR word_rotr 11 x XOR word_rotr 25 x"

definition sigma0 :: "u32 \<Rightarrow> u32" where
  "sigma0 x = word_rotr 7 x XOR word_rotr 18 x XOR drop_bit 3 x"

definition sigma1 :: "u32 \<Rightarrow> u32" where
  "sigma1 x = word_rotr 17 x XOR word_rotr 19 x XOR drop_bit 10 x"

definition be32 :: "byte \<Rightarrow> byte \<Rightarrow> byte \<Rightarrow> byte \<Rightarrow> u32" where
  "be32 a b c d =
     push_bit 24 (ucast a) OR push_bit 16 (ucast b) OR push_bit 8 (ucast c) OR ucast d"

fun words_of :: "bytes \<Rightarrow> u32 list" where
  "words_of (a # b # c # d # bs) = be32 a b c d # words_of bs"
| "words_of _ = []"

text \<open>
  The message schedule keeps the last sixteen words, oldest first; each round consumes the oldest
  and appends the word sixteen places on.
\<close>

fun rounds :: "u32 list \<Rightarrow> u32 list \<Rightarrow> chain \<Rightarrow> chain" where
  "rounds (k # ks) (w # ws) [a, b, c, d, e, f, g, h] =
     (let t1 = h + Sigma1 e + Ch e f g + k + w;
          t2 = Sigma0 a + Maj a b c;
          w' = sigma1 (ws ! 13) + ws ! 8 + sigma0 (ws ! 0) + w
      in rounds ks (ws @ [w']) [t1 + t2, a, b, c, d + t1, e, f, g])"
| "rounds _ _ st = st"

definition block256 :: "chain \<Rightarrow> bytes \<Rightarrow> chain" where
  "block256 h p = map2 (+) h (rounds K256 (words_of p) h)"

function blocks256 :: "chain \<Rightarrow> bytes \<Rightarrow> chain" where
  "blocks256 h p = (if length p < 64 then h else blocks256 (block256 h (take 64 p)) (drop 64 p))"
  by pat_completeness auto
termination
  by (relation "measure (\<lambda>(h, p). length p)") auto

declare blocks256.simps [simp del]

definition put32 :: "u32 \<Rightarrow> bytes" where
  "put32 w = [ucast (drop_bit 24 w), ucast (drop_bit 16 w), ucast (drop_bit 8 w), ucast w]"

definition put64 :: "uint64 \<Rightarrow> bytes" where
  "put64 w = map (\<lambda>i. ucast (drop_bit (8 * i) w)) [7, 6, 5, 4, 3, 2, 1, 0]"

section \<open>The digest object\<close>

record digest =
  dg_h :: chain
  dg_x :: bytes
  dg_len :: uint64

definition sha256_Reset :: "digest \<Rightarrow> digest" where
  "sha256_Reset d = \<lparr>dg_h = init256, dg_x = [], dg_len = 0\<rparr>"

definition sha256_New :: digest where
  "sha256_New = \<lparr>dg_h = init256, dg_x = [], dg_len = 0\<rparr>"

definition sha256_Write :: "digest \<Rightarrow> bytes \<Rightarrow> digest" where
  "sha256_Write d p =
     (let len' = dg_len d + word_of_nat (length p);
          n = (if dg_x d = [] then 0 else min (64 - length (dg_x d)) (length p));
          x1 = dg_x d @ take n p;
          p1 = drop n p;
          h1 = (if length x1 = 64 then block256 (dg_h d) x1 else dg_h d);
          x2 = (if length x1 = 64 then [] else x1);
          m = length p1 - length p1 mod 64;
          h2 = (if 64 \<le> length p1 then blocks256 h1 (take m p1) else h1);
          p2 = (if 64 \<le> length p1 then drop m p1 else p1)
      in \<lparr>dg_h = h2, dg_x = (if p2 = [] then x2 else p2), dg_len = len'\<rparr>)"

definition sha256_padding :: "uint64 \<Rightarrow> bytes" where
  "sha256_padding len =
     (let r = unat len mod 64; t = (if r < 56 then 56 - r else 64 + 56 - r)
      in 0x80 # replicate (t - 1) 0 @ put64 (push_bit 3 len))"

text \<open>\<open>Sum\<close> works on a copy, so the object it is called on is unchanged.\<close>

definition sha256_Sum :: "digest \<Rightarrow> bytes" where
  "sha256_Sum d = concat (map put32 (dg_h (sha256_Write d (sha256_padding (dg_len d)))))"

text \<open>The hash of a whole message, in one piece.\<close>

definition sha256 :: "bytes \<Rightarrow> bytes" where
  "sha256 m = concat (map put32 (blocks256 init256 (m @ sha256_padding (word_of_nat (length m)))))"

section \<open>Blocks and padding\<close>

lemma blocks256_short [simp]: "length p < 64 \<Longrightarrow> blocks256 h p = h"
  by (subst blocks256.simps) simp

lemma blocks256_block: "length p = 64 \<Longrightarrow> blocks256 h (p @ q) = blocks256 (block256 h p) q"
  by (subst blocks256.simps) simp

lemma blocks256_one: "length p = 64 \<Longrightarrow> blocks256 h p = block256 h p"
  using blocks256_block [of p h "[]"] by simp

lemma blocks256_append:
  "64 dvd length a \<Longrightarrow> blocks256 h (a @ b) = blocks256 (blocks256 h a) b"
proof (induction h a rule: blocks256.induct)
  case (1 h a)
  show ?case
  proof (cases "length a < 64")
    case True
    with "1.prems" have "a = []" by (auto dest: dvd_imp_le)
    then show ?thesis by simp
  next
    case False
    then have t: "length (take 64 a) = 64" by simp
    have d: "64 dvd length (drop 64 a)"
      using "1.prems" False by (simp add: dvd_diff_nat)
    have "blocks256 h (a @ b) = blocks256 (block256 h (take 64 a)) (drop 64 a @ b)"
      using blocks256_block [OF t, of h "drop 64 a @ b"]
      by (simp only: append_assoc [symmetric] append_take_drop_id)
    also have "\<dots> = blocks256 (blocks256 (block256 h (take 64 a)) (drop 64 a)) b"
      using "1.IH" [OF False d] .
    also have "blocks256 (block256 h (take 64 a)) (drop 64 a) = blocks256 h a"
      using blocks256_block [OF t, of h "drop 64 a"] by simp
    finally show ?thesis .
  qed
qed

lemma length_rounds [simp]: "length (rounds ks ws st) = length st"
  by (induction ks ws st rule: rounds.induct) (simp_all add: Let_def)

lemma length_block256 [simp]: "length (block256 h p) = length h"
  by (simp add: block256_def)

lemma length_blocks256 [simp]: "length (blocks256 h p) = length h"
  by (induction h p rule: blocks256.induct) (subst blocks256.simps, simp)

lemma length_put64 [simp]: "length (put64 w) = 8"
  by (simp add: put64_def)

lemma length_concat_put32 [simp]: "length (concat (map put32 ws)) = 4 * length ws"
  by (induction ws) (simp_all add: put32_def)

lemma length_sha256 [simp]: "length (sha256 m) = 32"
  by (simp add: sha256_def init256_def)

lemma unat_of_length_mod64: "unat (word_of_nat n :: uint64) mod 64 = n mod 64"
proof -
  have "(64 :: nat) dvd 2 ^ 64" by (rule dvdI [where k = "2 ^ 58"]) simp
  then show ?thesis by (simp add: unat_of_nat mod_mod_cancel)
qed

lemma padding_aligns: "64 dvd n + length (sha256_padding (word_of_nat n))"
proof -
  define r where "r = n mod 64"
  have r: "r < 64" and n: "n = 64 * (n div 64) + r" by (simp_all add: r_def)
  have "length (sha256_padding (word_of_nat n)) = (if r < 56 then 64 - r else 128 - r)"
    using r by (auto simp: sha256_padding_def Let_def unat_of_length_mod64 r_def)
  then have "n + length (sha256_padding (word_of_nat n)) =
      64 * (n div 64) + (if r < 56 then 64 else 128)"
    using r n by (simp split: if_splits)
  then show ?thesis by (simp only:) simp
qed

section \<open>What a digest represents\<close>

text \<open>
  \<open>digest_of d m\<close>: the object \<open>d\<close> has been fed the bytes \<open>m\<close> since its last
  \<open>Reset\<close>. The bytes split into whole blocks \<open>a\<close>, folded into the chaining value, and
  fewer than 64 pending ones.
\<close>

definition digest_of :: "digest \<Rightarrow> bytes \<Rightarrow> bool" where
  "digest_of d m \<longleftrightarrow>
     (\<exists>a. 64 dvd length a \<and> m = a @ dg_x d \<and> dg_h d = blocks256 init256 a) \<and>
     length (dg_x d) < 64 \<and> dg_len d = word_of_nat (length m)"

lemma digest_of_Reset: "digest_of (sha256_Reset d) []"
  by (simp add: digest_of_def sha256_Reset_def)

text \<open>The part of \<open>Write\<close> after the pending buffer is empty.\<close>

lemma write_whole_blocks:
  fixes p :: bytes
  assumes a: "64 dvd length a"
  defines "m \<equiv> length p - length p mod 64"
  shows "\<exists>a'. 64 dvd length a' \<and>
      a @ p = a' @ (if 64 \<le> length p then drop m p else p) \<and>
      (if 64 \<le> length p then blocks256 (blocks256 init256 a) (take m p) else blocks256 init256 a) =
        blocks256 init256 a' \<and>
      length (if 64 \<le> length p then drop m p else p) < 64"
proof (cases "64 \<le> length p")
  case True
  have m: "64 dvd m" "m \<le> length p" "length p - m < 64"
    by (simp_all add: m_def)
  then have "64 dvd length (a @ take m p)" using a by simp
  moreover have "blocks256 (blocks256 init256 a) (take m p) = blocks256 init256 (a @ take m p)"
    using blocks256_append [OF a] by simp
  ultimately show ?thesis
    using True m by (intro exI [where x = "a @ take m p"]) simp
next
  case False
  then show ?thesis using a by (intro exI [where x = a]) simp
qed

lemma digest_of_Write_empty:
  assumes "digest_of d m" and x: "dg_x d = []"
  shows "digest_of (sha256_Write d p) (m @ p)"
proof -
  from assms have a: "64 dvd length m" and h: "dg_h d = blocks256 init256 m"
    and len: "dg_len d = word_of_nat (length m)"
    by (auto simp: digest_of_def)
  from write_whole_blocks [OF a, of p] show ?thesis
    by (auto simp: digest_of_def sha256_Write_def Let_def x h len)
qed

text \<open>A \<open>Write\<close> that fills the pending buffer is a full block followed by a \<open>Write\<close>.\<close>

lemma sha256_Write_filled:
  assumes "dg_x d \<noteq> []" and "64 \<le> length (dg_x d) + length p" and "length (dg_x d) < 64"
  defines "n \<equiv> 64 - length (dg_x d)"
  shows "sha256_Write d p =
    sha256_Write \<lparr>dg_h = block256 (dg_h d) (dg_x d @ take n p), dg_x = [],
                  dg_len = dg_len d + word_of_nat n\<rparr> (drop n p)"
proof -
  have "min (64 - length (dg_x d)) (length p) = n" using assms by simp
  moreover have "length (dg_x d @ take n p) = 64" using assms by simp
  moreover have "n + (length p - n) = length p" using assms by simp
  then have "(word_of_nat (length p) :: uint64) = word_of_nat n + word_of_nat (length p - n)"
    by (metis of_nat_add)
  ultimately show ?thesis
    using assms(1,2) by (simp add: sha256_Write_def Let_def)
qed

lemma digest_of_Write:
  assumes "digest_of d m"
  shows "digest_of (sha256_Write d p) (m @ p)"
proof -
  obtain a where a: "64 dvd length a" and m: "m = a @ dg_x d"
    and h: "dg_h d = blocks256 init256 a" and x: "length (dg_x d) < 64"
    and len: "dg_len d = word_of_nat (length m)"
    using assms by (auto simp: digest_of_def)
  consider (empty) "dg_x d = []" | (filled) "dg_x d \<noteq> []" "64 \<le> length (dg_x d) + length p"
    | (pending) "dg_x d \<noteq> []" "length (dg_x d) + length p < 64"
    by linarith
  then show ?thesis
  proof cases
    case empty
    with assms show ?thesis by (rule digest_of_Write_empty)
  next
    case filled
    define n where "n = 64 - length (dg_x d)"
    let ?b = "dg_x d @ take n p"
    let ?d = "\<lparr>dg_h = block256 (dg_h d) ?b, dg_x = [], dg_len = dg_len d + word_of_nat n\<rparr>"
    have b: "length ?b = 64" and n: "n \<le> length p" using filled x by (simp_all add: n_def)
    have "block256 (dg_h d) ?b = blocks256 init256 (a @ ?b)"
      using blocks256_append [OF a, of init256 ?b] blocks256_one [OF b] h by simp
    moreover have "dg_len ?d = word_of_nat (length (m @ take n p))"
      using len n by simp
    moreover have "m @ take n p = (a @ ?b) @ []" by (simp add: m)
    moreover have "64 dvd length (a @ ?b)" using a b by simp
    ultimately have "digest_of ?d (m @ take n p)"
      unfolding digest_of_def by (intro conjI exI [where x = "a @ ?b"]) simp_all
    from digest_of_Write_empty [OF this, of "drop n p"]
    show ?thesis using sha256_Write_filled [OF filled x] by (simp add: n_def)
  next
    case pending
    then have "min (64 - length (dg_x d)) (length p) = length p" by simp
    with pending a m h len show ?thesis
      by (auto simp: digest_of_def sha256_Write_def Let_def)
  qed
qed

lemma sha256_Sum_eq:
  assumes "digest_of d m"
  shows "sha256_Sum d = sha256 m"
proof -
  let ?p = "sha256_padding (word_of_nat (length m))"
  have len: "dg_len d = word_of_nat (length m)" using assms by (simp add: digest_of_def)
  from digest_of_Write [OF assms, of ?p] obtain a where a: "64 dvd length a"
    and eq: "m @ ?p = a @ dg_x (sha256_Write d ?p)"
    and h: "dg_h (sha256_Write d ?p) = blocks256 init256 a"
    and x: "length (dg_x (sha256_Write d ?p)) < 64"
    by (auto simp: digest_of_def)
  from eq have "length m + length ?p = length a + length (dg_x (sha256_Write d ?p))"
    by (metis length_append)
  then have "64 dvd length (dg_x (sha256_Write d ?p))"
    using a padding_aligns [of "length m"] by (metis dvd_add_right_iff)
  with x have "dg_x (sha256_Write d ?p) = []" by (auto dest: dvd_imp_le)
  with eq h len show ?thesis by (simp add: sha256_Sum_def sha256_def)
qed

section \<open>The contract of a hash object\<close>

locale hash_object =
  fixes h_reset :: "'d \<Rightarrow> 'd"
    and h_write :: "'d \<Rightarrow> bytes \<Rightarrow> 'd"
    and h_sum :: "'d \<Rightarrow> bytes"
    and fed :: "'d \<Rightarrow> bytes \<Rightarrow> bool"
    and H :: "bytes \<Rightarrow> bytes"
  assumes fed_reset: "fed (h_reset d) []"
    and fed_write: "fed d m \<Longrightarrow> fed (h_write d p) (m @ p)"
    and sum_fed: "fed d m \<Longrightarrow> h_sum d = H m"
begin

lemma fed_foldl: "fed d m \<Longrightarrow> fed (foldl h_write d ps) (m @ concat ps)"
proof (induction ps arbitrary: d m)
  case (Cons p ps)
  from Cons.IH [OF fed_write [OF Cons.prems]] show ?case by simp
qed simp

lemma sum_pieces: "h_sum (foldl h_write (h_reset d) ps) = H (concat ps)"
  using sum_fed [OF fed_foldl [OF fed_reset]] by simp

end

interpretation sha: hash_object sha256_Reset sha256_Write sha256_Sum digest_of sha256
  by unfold_locales (simp_all add: digest_of_Reset digest_of_Write sha256_Sum_eq)

end
