(* ===== verification/Fingerprint.thy ===== *)
theory Fingerprint
  imports Sha256
begin

text \<open>
  The package \<open>internal/fingerprint\<close>: the request fields that are hashed, the buffered path
  (\<open>FromHTTP\<close>, \<open>RedisKey\<close>, \<open>Hash\<close>) and the streaming path
  (\<open>StreamingRedisKey\<close>, \<open>StreamingHash\<close>), with the pool that recycles hash objects. The
  lemmas show that both paths compute the same key, that the key is a function of method, URI and
  body alone, and what the error path leaves in the key buffer.
\<close>

section \<open>What the package uses of the standard library\<close>

text \<open>
  A reader (\<open>io.Reader\<close>) hands out its bytes in pieces and then ends, with \<open>io.EOF\<close>
  (\<open>None\<close>) or another error. A read that returns bytes together with its error is the piece
  followed by the end.
\<close>

record reader =
  rd_chunks :: "bytes list"
  rd_err :: "error option"

definition empty_reader :: reader where
  "empty_reader = \<lparr>rd_chunks = [], rd_err = None\<rparr>"

text \<open>The fields of \<open>http.Request\<close> that the service reads.\<close>

record http_request =
  rq_Method :: string
  rq_RequestURI :: string
  rq_Path :: string
  rq_Header :: "string \<Rightarrow> string"
  rq_RemoteAddr :: string
  rq_TLS :: bool
  rq_Body :: "reader option"
  rq_deadline :: "int option"

text \<open>
  \<open>io.Copy\<close>: each non-empty piece is written to the destination; the error that ended the
  reader is returned unless it is \<open>io.EOF\<close>. The destination is any \<open>io.Writer\<close>.
\<close>

fun io_Copy_loop :: "('d \<Rightarrow> bytes \<Rightarrow> 'd) \<Rightarrow> 'd \<Rightarrow> int64 \<Rightarrow> bytes list \<Rightarrow> 'd \<times> int64" where
  "io_Copy_loop wr d n [] = (d, n)"
| "io_Copy_loop wr d n (c # cs) =
     (if c = [] then io_Copy_loop wr d n cs
      else io_Copy_loop wr (wr d c) (n + word_of_nat (length c)) cs)"

definition io_Copy :: "('d \<Rightarrow> bytes \<Rightarrow> 'd) \<Rightarrow> 'd \<Rightarrow> reader \<Rightarrow> 'd \<times> int64 \<times> error option" where
  "io_Copy wr d rd = (let (d', n) = io_Copy_loop wr d 0 (rd_chunks rd) in (d', n, rd_err rd))"

definition io_ReadAll :: "reader \<Rightarrow> error + bytes" where
  "io_ReadAll rd = (case rd_err rd of Some e \<Rightarrow> Inl e | None \<Rightarrow> Inr (concat (rd_chunks rd)))"

text \<open>
  \<open>hex.Encode\<close> writes two characters per byte to the front of the destination and panics when
  the destination is too short.
\<close>

definition hextable :: bytes where
  "hextable = bytes_of ''0123456789abcdef''"

fun hex_bytes :: "bytes \<Rightarrow> bytes" where
  "hex_bytes [] = []"
| "hex_bytes (v # vs) =
     hextable ! unat (drop_bit 4 v) # hextable ! unat (v AND 0x0F) # hex_bytes vs"

definition hex_Encode :: "bytes \<Rightarrow> bytes \<Rightarrow> bytes option" where
  "hex_Encode dst src =
     (if 2 * length src \<le> length dst then Some (hex_bytes src @ drop (2 * length src) dst)
      else None)"

definition go_copy :: "bytes \<Rightarrow> bytes \<Rightarrow> bytes" where
  "go_copy dst src = take (length dst) src @ drop (length src) dst"

text \<open>
  A \<open>sync.Pool\<close> of hash objects: \<open>Get\<close> removes an arbitrary item (the argument \<open>i\<close>
  says which) or makes a new one; \<open>Put\<close> adds one.
\<close>

type_synonym hasher_pool = "digest list"

definition pool_Get :: "nat \<Rightarrow> hasher_pool \<Rightarrow> digest \<times> hasher_pool" where
  "pool_Get i pool =
     (if i < length pool then (pool ! i, take i pool @ drop (Suc i) pool)
      else (sha256_New, pool))"

definition pool_Put :: "digest \<Rightarrow> hasher_pool \<Rightarrow> hasher_pool" where
  "pool_Put d pool = d # pool"

section \<open>The package\<close>

definition redisKeyPrefix :: string where
  "redisKeyPrefix = ''dedup:''"

definition sha256HexLen :: nat where
  "sha256HexLen = 32 * 2"

record Request =
  Method :: string
  URI :: string
  Body :: bytes

definition FromHTTP :: "http_request \<Rightarrow> error + Request" where
  "FromHTTP r =
     (case rq_Body r of
        None \<Rightarrow> Inr \<lparr>Method = rq_Method r, URI = rq_RequestURI r, Body = []\<rparr>
      | Some rd \<Rightarrow>
          (case io_ReadAll rd of
             Inl e \<Rightarrow> Inl e
           | Inr body \<Rightarrow> Inr \<lparr>Method = rq_Method r, URI = rq_RequestURI r, Body = body\<rparr>))"

definition hashInto :: "Request \<Rightarrow> bytes \<Rightarrow> nat \<Rightarrow> hasher_pool \<Rightarrow> (bytes, hasher_pool) exec" where
  "hashInto f dst i pool =
     (let (h0, pool1) = pool_Get i pool;
          h1 = sha256_Reset h0;
          h2 = sha256_Write h1 (bytes_of (Method f));
          h3 = sha256_Write h2 (bytes_of (URI f));
          h4 = sha256_Write h3 (Body f);
          digest = sha256_Sum h4
      in case hex_Encode dst digest of
           None \<Rightarrow> Panicked pool1
         | Some dst' \<Rightarrow> Returned dst' (pool_Put h4 pool1))"

definition RedisKey :: "Request \<Rightarrow> nat \<Rightarrow> hasher_pool \<Rightarrow> (string, hasher_pool) exec" where
  "RedisKey f i pool =
     (let n = length redisKeyPrefix;
          buf = go_copy (replicate (n + sha256HexLen) 0) (bytes_of redisKeyPrefix)
      in case hashInto f (drop n buf) i pool of
           Panicked pool' \<Rightarrow> Panicked pool'
         | Returned dst pool' \<Rightarrow> Returned (string_of_bytes (take n buf @ dst)) pool')"

definition Hash :: "Request \<Rightarrow> nat \<Rightarrow> hasher_pool \<Rightarrow> (string, hasher_pool) exec" where
  "Hash f i pool =
     (case hashInto f (replicate sha256HexLen 0) i pool of
        Panicked pool' \<Rightarrow> Panicked pool'
      | Returned dst pool' \<Rightarrow> Returned (string_of_bytes dst) pool')"

definition streamHashInto ::
  "string \<Rightarrow> string \<Rightarrow> reader \<Rightarrow> bytes \<Rightarrow> nat \<Rightarrow> hasher_pool \<Rightarrow>
     (bytes \<times> int64 \<times> error option, hasher_pool) exec" where
  "streamHashInto method uri body dst i pool =
     (let (h0, pool1) = pool_Get i pool;
          h1 = sha256_Reset h0;
          h2 = sha256_Write h1 (bytes_of method);
          h3 = sha256_Write h2 (bytes_of uri);
          (h4, bodyLen, err) = io_Copy sha256_Write h3 body
      in case err of
           Some e \<Rightarrow> Returned (dst, bodyLen, Some e) (pool_Put h4 pool1)
         | None \<Rightarrow>
             (case hex_Encode dst (sha256_Sum h4) of
                None \<Rightarrow> Panicked (pool_Put h4 pool1)
              | Some dst' \<Rightarrow> Returned (dst', bodyLen, None) (pool_Put h4 pool1)))"

definition StreamingRedisKey ::
  "string \<Rightarrow> string \<Rightarrow> reader \<Rightarrow> nat \<Rightarrow> hasher_pool \<Rightarrow>
     (string \<times> int64 \<times> error option, hasher_pool) exec" where
  "StreamingRedisKey method uri body i pool =
     (let n = length redisKeyPrefix;
          buf = go_copy (replicate (n + sha256HexLen) 0) (bytes_of redisKeyPrefix)
      in case streamHashInto method uri body (drop n buf) i pool of
           Panicked pool' \<Rightarrow> Panicked pool'
         | Returned (dst, bodyLen, err) pool' \<Rightarrow>
             Returned (string_of_bytes (take n buf @ dst), bodyLen, err) pool')"

definition StreamingHash ::
  "string \<Rightarrow> string \<Rightarrow> reader \<Rightarrow> nat \<Rightarrow> hasher_pool \<Rightarrow>
     (string \<times> int64 \<times> error option, hasher_pool) exec" where
  "StreamingHash method uri body i pool =
     (case streamHashInto method uri body (replicate sha256HexLen 0) i pool of
        Panicked pool' \<Rightarrow> Panicked pool'
      | Returned (dst, bodyLen, err) pool' \<Rightarrow> Returned (string_of_bytes dst, bodyLen, err) pool')"

section \<open>The key as a function of the request\<close>

text \<open>The value both paths are shown to compute.\<close>

definition digest_hex :: "string \<Rightarrow> string \<Rightarrow> bytes \<Rightarrow> string" where
  "digest_hex method uri body =
     string_of_bytes (hex_bytes (sha256 (bytes_of method @ bytes_of uri @ body)))"

definition fingerprint_key :: "string \<Rightarrow> string \<Rightarrow> bytes \<Rightarrow> string" where
  "fingerprint_key method uri body = redisKeyPrefix @ digest_hex method uri body"

subsection \<open>Hexadecimal\<close>

lemma length_hex_bytes [simp]: "length (hex_bytes bs) = 2 * length bs"
  by (induction bs) simp_all

lemma length_hextable [simp]: "length hextable = 16"
  by (simp add: hextable_def)

lemma distinct_hextable: "distinct hextable"
  by code_simp

lemma hi_nibble_eq: "unat (drop_bit 4 (v :: byte)) = unat v div 16"
  by (simp add: drop_bit_eq_div unat_div)

lemma hi_nibble_less: "unat (drop_bit 4 (v :: byte)) < 16"
proof -
  have "unat v < 256" using unsigned_less [of v] by simp
  then show ?thesis by (simp add: hi_nibble_eq)
qed

lemma lo_nibble_eq: "unat (v AND 0x0F :: byte) = unat v mod 16"
proof -
  have "v AND 0x0F = take_bit 4 v" by (simp add: take_bit_eq_mask mask_eq_exp_minus_1)
  then show ?thesis by (simp add: take_bit_eq_mod unat_mod)
qed

lemma nibbles_inject:
  "unat (drop_bit 4 v) = unat (drop_bit 4 w) \<Longrightarrow> unat (v AND 0x0F) = unat (w AND 0x0F) \<Longrightarrow> v = w"
  for v w :: byte
  by (metis div_mult_mod_eq hi_nibble_eq lo_nibble_eq word_unat_eq_iff)

lemma hex_bytes_inject: "length a = length b \<Longrightarrow> hex_bytes a = hex_bytes b \<longleftrightarrow> a = b"
proof (induction a b rule: list_induct2)
  case (Cons v vs w ws)
  have "hextable ! unat (drop_bit 4 v) = hextable ! unat (drop_bit 4 w) \<and>
        hextable ! unat (v AND 0x0F) = hextable ! unat (w AND 0x0F) \<longleftrightarrow> v = w"
    using nibbles_inject [of v w]
    by (auto simp: nth_eq_iff_index_eq distinct_hextable hi_nibble_less lo_nibble_eq)
  with Cons show ?case by auto
qed simp

lemma hex_bytes_in_table: "set (hex_bytes bs) \<subseteq> set hextable"
  by (induction bs) (auto simp: hi_nibble_less lo_nibble_eq)

subsection \<open>The two paths\<close>

context hash_object
begin

lemma fed_io_Copy_loop: "fed d m \<Longrightarrow> fed (fst (io_Copy_loop h_write d n cs)) (m @ concat cs)"
proof (induction cs arbitrary: d n m)
  case (Cons c cs)
  show ?case
  proof (cases "c = []")
    case True
    with Cons show ?thesis by simp
  next
    case False
    with Cons.IH [OF fed_write [OF Cons.prems], of c "n + word_of_nat (length c)"]
    show ?thesis by simp
  qed
qed simp

end

lemma io_Copy_loop_count:
  "snd (io_Copy_loop wr d n cs) = n + word_of_nat (length (concat cs))"
  by (induction wr d n cs rule: io_Copy_loop.induct) simp_all

lemma pool_Get_Reset:
  "sha256_Sum (foldl sha256_Write (sha256_Reset (fst (pool_Get i pool))) ps) = sha256 (concat ps)"
  by (rule sha.sum_pieces)

lemma hashInto_eq:
  assumes "64 \<le> length dst"
  shows "\<exists>pool'. hashInto f dst i pool =
    Returned (hex_bytes (sha256 (bytes_of (Method f) @ bytes_of (URI f) @ Body f)) @ drop 64 dst) pool'"
  using assms pool_Get_Reset [of i pool "[bytes_of (Method f), bytes_of (URI f), Body f]"]
  by (simp add: hashInto_def hex_Encode_def Let_def case_prod_beta)

lemma streamHashInto_eq:
  assumes "64 \<le> length dst"
  shows "\<exists>pool'. streamHashInto method uri rd dst i pool =
    Returned
      (case rd_err rd of
         None \<Rightarrow> hex_bytes (sha256 (bytes_of method @ bytes_of uri @ concat (rd_chunks rd))) @ drop 64 dst
       | Some e \<Rightarrow> dst,
       word_of_nat (length (concat (rd_chunks rd))), rd_err rd) pool'"
proof -
  let ?h = "sha256_Write (sha256_Write (sha256_Reset (fst (pool_Get i pool))) (bytes_of method))
              (bytes_of uri)"
  let ?r = "io_Copy_loop sha256_Write ?h 0 (rd_chunks rd)"
  have "digest_of ?h (bytes_of method @ bytes_of uri)"
    using sha.fed_foldl [OF sha.fed_reset, of _ "[bytes_of method, bytes_of uri]"] by simp
  from sha.sum_fed [OF sha.fed_io_Copy_loop [OF this]]
  have "sha256_Sum (fst ?r) = sha256 (bytes_of method @ bytes_of uri @ concat (rd_chunks rd))"
    by simp
  with assms io_Copy_loop_count [of sha256_Write ?h 0 "rd_chunks rd"] show ?thesis
    by (simp add: streamHashInto_def io_Copy_def hex_Encode_def Let_def case_prod_beta
        split: option.splits)
qed

lemma key_buffer:
  "take (length redisKeyPrefix) (go_copy (replicate (length redisKeyPrefix + sha256HexLen) 0)
     (bytes_of redisKeyPrefix)) = bytes_of redisKeyPrefix"
  "drop (length redisKeyPrefix) (go_copy (replicate (length redisKeyPrefix + sha256HexLen) 0)
     (bytes_of redisKeyPrefix)) = replicate 64 0"
  by (simp_all add: go_copy_def sha256HexLen_def)

lemma RedisKey_eq: "\<exists>pool'. RedisKey f i pool = Returned (fingerprint_key (Method f) (URI f) (Body f)) pool'"
  using hashInto_eq [of "replicate 64 0" f i pool]
  by (auto simp: RedisKey_def Let_def key_buffer fingerprint_key_def digest_hex_def)

lemma Hash_eq: "\<exists>pool'. Hash f i pool = Returned (digest_hex (Method f) (URI f) (Body f)) pool'"
  using hashInto_eq [of "replicate 64 0" f i pool]
  by (auto simp: Hash_def sha256HexLen_def digest_hex_def)

lemma StreamingRedisKey_eq:
  "\<exists>pool'. StreamingRedisKey meth uri rd i pool =
    Returned
      (case rd_err rd of
         None \<Rightarrow> fingerprint_key meth uri (concat (rd_chunks rd))
       | Some e \<Rightarrow> redisKeyPrefix @ string_of_bytes (replicate 64 0),
       word_of_nat (length (concat (rd_chunks rd))), rd_err rd) pool'"
  using streamHashInto_eq [of "replicate 64 0" meth uri rd i pool]
  by (auto simp: StreamingRedisKey_def Let_def key_buffer fingerprint_key_def digest_hex_def
      split: option.splits)

lemma StreamingHash_eq:
  "\<exists>pool'. StreamingHash meth uri rd i pool =
    Returned
      (case rd_err rd of
         None \<Rightarrow> digest_hex meth uri (concat (rd_chunks rd))
       | Some e \<Rightarrow> string_of_bytes (replicate 64 0),
       word_of_nat (length (concat (rd_chunks rd))), rd_err rd) pool'"
  using streamHashInto_eq [of "replicate 64 0" meth uri rd i pool]
  by (auto simp: StreamingHash_def sha256HexLen_def digest_hex_def split: option.splits)

lemma length_fingerprint_key: "length (fingerprint_key m u b) = 70"
  by (simp add: fingerprint_key_def digest_hex_def redisKeyPrefix_def)

lemma fingerprint_key_inject:
  "fingerprint_key m u b = fingerprint_key m' u' b' \<longleftrightarrow>
   sha256 (bytes_of m @ bytes_of u @ b) = sha256 (bytes_of m' @ bytes_of u' @ b')"
  by (simp add: fingerprint_key_def digest_hex_def hex_bytes_inject)

section \<open>Properties\<close>

text \<open>
  C8: the streaming path and the buffered path agree. For every request whose body can be read,
  whatever hash objects the two calls take from the pool, \<open>FromHTTP\<close> succeeds, neither path
  panics, both return the same key, and the streaming path reports the number of body bytes.
\<close>

theorem streaming_key_eq_buffered_key:
  assumes "rq_Body r = Some rd" and "rd_err rd = None"
  shows "\<exists>f k pool1' pool2'.
    FromHTTP r = Inr f \<and>
    RedisKey f i pool1 = Returned k pool1' \<and>
    StreamingRedisKey (rq_Method r) (rq_RequestURI r) rd j pool2 =
      Returned (k, word_of_nat (length (Body f)), None) pool2'"
proof -
  let ?f = "\<lparr>Method = rq_Method r, URI = rq_RequestURI r, Body = concat (rd_chunks rd)\<rparr>"
  have "FromHTTP r = Inr ?f" using assms by (simp add: FromHTTP_def io_ReadAll_def)
  moreover obtain p1 where "RedisKey ?f i pool1 = Returned
      (fingerprint_key (rq_Method r) (rq_RequestURI r) (concat (rd_chunks rd))) p1"
    using RedisKey_eq [of ?f i pool1] by auto
  moreover obtain p2 where "StreamingRedisKey (rq_Method r) (rq_RequestURI r) rd j pool2 = Returned
      (fingerprint_key (rq_Method r) (rq_RequestURI r) (concat (rd_chunks rd)),
       word_of_nat (length (Body ?f)), None) p2"
    using StreamingRedisKey_eq [of "rq_Method r" "rq_RequestURI r" rd j pool2] assms(2) by auto
  ultimately show ?thesis by blast
qed

theorem streaming_key_eq_buffered_key_witness:
  "\<exists>f k pool1' pool2'.
    FromHTTP \<lparr>rq_Method = ''POST'', rq_RequestURI = ''/a?q=1'', rq_Path = ''/a'', rq_Header = (\<lambda>_. []),
      rq_RemoteAddr = ''10.0.0.1:9000'', rq_TLS = False,
      rq_Body = Some \<lparr>rd_chunks = [[1, 2], [], [3]], rd_err = None\<rparr>, rq_deadline = None\<rparr> = Inr f \<and>
    RedisKey f 0 [] = Returned k pool1' \<and>
    StreamingRedisKey ''POST'' ''/a?q=1'' \<lparr>rd_chunks = [[1, 2], [], [3]], rd_err = None\<rparr> 0 [sha256_New] =
      Returned (k, word_of_nat (length (Body f)), None) pool2'"
  using streaming_key_eq_buffered_key
    [of "\<lparr>rq_Method = ''POST'', rq_RequestURI = ''/a?q=1'', rq_Path = ''/a'', rq_Header = (\<lambda>_. []),
      rq_RemoteAddr = ''10.0.0.1:9000'', rq_TLS = False,
      rq_Body = Some \<lparr>rd_chunks = [[1, 2], [], [3]], rd_err = None\<rparr>, rq_deadline = None\<rparr>"
      "\<lparr>rd_chunks = [[1, 2], [], [3]], rd_err = None\<rparr>" 0 "[]" 0 "[sha256_New]"]
  by simp

text \<open>
  C26: the format of a key. Computing a key never panics, for any request, pool and choice of hash
  object; the key has 70 characters, begins with \<open>dedup:\<close> and continues with lower-case
  hexadecimal digits.
\<close>

theorem RedisKey_format:
  "\<exists>k pool'. RedisKey f i pool = Returned k pool' \<and> length k = 70 \<and>
     take 6 k = ''dedup:'' \<and> set (drop 6 k) \<subseteq> set ''0123456789abcdef''"
proof -
  obtain pool' where "RedisKey f i pool = Returned (fingerprint_key (Method f) (URI f) (Body f)) pool'"
    using RedisKey_eq by blast
  moreover have "take 6 (fingerprint_key m u b) = ''dedup:''" for m u b
    by (simp add: fingerprint_key_def redisKeyPrefix_def)
  moreover have "set (drop 6 (fingerprint_key m u b)) \<subseteq> set ''0123456789abcdef''" for m u b
  proof -
    have "set (digest_hex m u b) \<subseteq> char_of_byte ` set hextable"
      unfolding digest_hex_def string_of_bytes_def by (simp add: image_mono hex_bytes_in_table)
    also have "char_of_byte ` set hextable = set ''0123456789abcdef''"
      unfolding hextable_def by (metis list.set_map string_of_bytes_bytes_of string_of_bytes_def)
    finally show ?thesis by (simp add: fingerprint_key_def redisKeyPrefix_def)
  qed
  ultimately show ?thesis using length_fingerprint_key by blast
qed

text \<open>
  C23: what two requests with the same key have in common. The keys of two requests are equal
  exactly when the SHA-256 digests of method, URI and body, joined, are equal: the hexadecimal
  encoding and the key buffer lose nothing, and nothing else enters the key.
\<close>

theorem RedisKey_eq_iff_digest_eq:
  "\<exists>k k' p p'. RedisKey f i pool = Returned k p \<and> RedisKey g j pool2 = Returned k' p' \<and>
    (k = k' \<longleftrightarrow>
      sha256 (bytes_of (Method f) @ bytes_of (URI f) @ Body f) =
      sha256 (bytes_of (Method g) @ bytes_of (URI g) @ Body g))"
  using RedisKey_eq [of f i pool] RedisKey_eq [of g j pool2] fingerprint_key_inject by blast

text \<open>
  C24: the hashed fields are joined without a separator, so requests that differ only in where the
  URI ends and the body begins get the same key: moving a non-empty suffix \<open>s\<close> of the URI to
  the front of the body changes the request and not the key.
\<close>

theorem RedisKey_ignores_field_boundary:
  assumes "s \<noteq> []"
  shows "\<lparr>Method = m, URI = u @ s, Body = b\<rparr> \<noteq> \<lparr>Method = m, URI = u, Body = bytes_of s @ b\<rparr> \<and>
    (\<exists>k p p'. RedisKey \<lparr>Method = m, URI = u @ s, Body = b\<rparr> i pool = Returned k p \<and>
      RedisKey \<lparr>Method = m, URI = u, Body = bytes_of s @ b\<rparr> j pool2 = Returned k p')"
proof -
  have "fingerprint_key m (u @ s) b = fingerprint_key m u (bytes_of s @ b)"
    by (simp add: fingerprint_key_def digest_hex_def)
  with assms RedisKey_eq [of "\<lparr>Method = m, URI = u @ s, Body = b\<rparr>" i pool]
    RedisKey_eq [of "\<lparr>Method = m, URI = u, Body = bytes_of s @ b\<rparr>" j pool2]
  show ?thesis by auto
qed

theorem RedisKey_ignores_field_boundary_witness:
  "\<exists>k p p'.
    RedisKey \<lparr>Method = ''DELETE'', URI = ''/orders/12'', Body = []\<rparr> 0 [] = Returned k p \<and>
    RedisKey \<lparr>Method = ''DELETE'', URI = ''/orders/1'', Body = bytes_of ''2''\<rparr> 0 [] = Returned k p'"
  using RedisKey_ignores_field_boundary [of "''2''" "''DELETE''" "''/orders/1''" "[]" 0 "[]" 0 "[]"]
  by simp

text \<open>
  C25: the error path. When reading the body fails after some bytes, the call returns that error
  and the number of bytes read, the key buffer still holds its zero bytes after the prefix, and the
  hash object is back in the pool.
\<close>

theorem streaming_key_read_error:
  assumes "rd_err rd = Some e"
  shows "\<exists>d. StreamingRedisKey m u rd i pool =
    Returned (''dedup:'' @ replicate 64 (CHR 0x00), word_of_nat (length (concat (rd_chunks rd))), Some e)
      (d # snd (pool_Get i pool))"
proof -
  have "string_of_bytes (replicate 64 0) = replicate 64 (CHR 0x00)"
    by (simp add: string_of_bytes_def char_of_byte_def char_of_def)
  with assms show ?thesis
    by (simp add: StreamingRedisKey_def streamHashInto_def io_Copy_def Let_def case_prod_beta key_buffer
        io_Copy_loop_count pool_Put_def redisKeyPrefix_def [symmetric])
qed

theorem streaming_key_read_error_witness:
  "\<exists>d. StreamingRedisKey ''POST'' ''/a'' \<lparr>rd_chunks = [[1, 2]], rd_err = Some (OtherErr ''reset'')\<rparr> 0 [] =
    Returned (''dedup:'' @ replicate 64 (CHR 0x00), 2, Some (OtherErr ''reset'')) [d]"
  using streaming_key_read_error
    [of "\<lparr>rd_chunks = [[1, 2]], rd_err = Some (OtherErr ''reset'')\<rparr>" _ "''POST''" "''/a''" 0 "[]"]
  by (simp add: pool_Get_def)

end
