(* ===== verification/Handler.thy ===== *)
theory Handler
  imports Store_Interface Fingerprint
begin

text \<open>
  The package \<open>internal/handler\<close>: the deduplication handler of \<open>xaccel.go\<close> and the health
  check of \<open>health.go\<close>. The state both share is the store, the pool of hash objects and the list
  of calls made on metrics, logger and response. The specification is the function
  \<open>decision\<close>, which says what becomes of a request without hash objects, buffers, logs and
  metrics; the handler is shown to implement it and to make exactly one response.
\<close>

section \<open>State\<close>

record 'r world =
  st :: "'r store"
  pool :: hasher_pool
  trace :: "event list"

definition emit :: "event list \<Rightarrow> 'r world \<Rightarrow> 'r world" where
  "emit es w = w\<lparr>trace := trace w @ es\<rparr>"

lemma emit_simps [simp]:
  "st (emit es w) = st w" "pool (emit es w) = pool w" "trace (emit es w) = trace w @ es"
  by (simp_all add: emit_def)

definition jsonContentType :: string where
  "jsonContentType = ''application/json; charset=utf-8''"

definition duplicateJSON :: string where
  "duplicateJSON = ''{\"error\":\"duplicate_request\",\"details\":\"an identical request was received within the deduplication window\"}''"

definition storeErrJSON :: string where
  "storeErrJSON = ''{\"error\":\"store_unavailable\",\"details\":\"deduplication store is unreachable; request rejected (fail-closed mode)\"}''"

definition healthOKJSON :: string where
  "healthOKJSON = ''{\"status\":\"ok\"}''"

section \<open>The deduplication handler\<close>

text \<open>The store field of the handler is the shared store of the world, its logger the trace.\<close>

record XAccelDedupHandler =
  h_cfg :: Config
  redirectPrefix :: string

definition NewXAccelDedup :: "Config \<Rightarrow> string \<Rightarrow> XAccelDedupHandler" where
  "NewXAccelDedup cfg prefix = \<lparr>h_cfg = cfg, redirectPrefix = prefix\<rparr>"

text \<open>
  What one run of the handler reads from its surroundings: which pooled hash object it gets, the
  clock when the deadline is set, the readings of the store call and the measured latency.
\<close>

record handler_readings =
  hr_pool :: nat
  hr_ctx :: time
  hr_store :: readings
  hr_latency :: duration

definition allow :: "XAccelDedupHandler \<Rightarrow> http_request \<Rightarrow> event list" where
  "allow h r =
     [Header ''X-Accel-Redirect'' (redirectPrefix h @ rq_RequestURI r), Header ''Content-Length'' ''0'', Status 200]"

definition handleStoreErr :: "XAccelDedupHandler \<Rightarrow> http_request \<Rightarrow> event list" where
  "handleStoreErr h r =
     (if FailOpen (h_cfg h) then allow h r else [Data 500 jsonContentType storeErrJSON])"

definition store_ctx :: "Config \<Rightarrow> http_request \<Rightarrow> time \<Rightarrow> ctx" where
  "store_ctx cfg r now =
     (if 0 < sint (StoreTimeout cfg) then WithTimeout (rq_deadline r) (StoreTimeout cfg) now else rq_deadline r)"

definition Handle ::
  "unicode_tables \<Rightarrow> 'r redis_client \<Rightarrow> XAccelDedupHandler \<Rightarrow> http_request \<Rightarrow> handler_readings \<Rightarrow> 'r world \<Rightarrow>
   (unit, 'r world) exec" where
  "Handle U R h r x w =
     (if IsMethodExcluded U (h_cfg h) (rq_Method r) then
        Returned () (emit (Inc (DedupChecksTotal ''excluded'') # allow h r) w)
      else
        let body = (case rq_Body r of None \<Rightarrow> empty_reader | Some b \<Rightarrow> b)
        in case StreamingRedisKey (rq_Method r) (rq_RequestURI r) body (hr_pool x) (pool w) of
             Panicked p \<Rightarrow> Panicked (w\<lparr>pool := p\<rparr>)
           | Returned (key, bodyLen, Some e) p \<Rightarrow>
               Returned () (emit
                 ([Log ErrorLevel [ErrField e] ''failed to read or hash request body'',
                   Inc (DedupChecksTotal ''error'')] @ handleStoreErr h r) (w\<lparr>pool := p\<rparr>))
           | Returned (key, bodyLen, None) p \<Rightarrow>
               (let w1 = emit
                      [Log DebugLevel [Str ''key'' key, Str ''method'' (rq_Method r), Str ''uri'' (rq_RequestURI r),
                        Int64 ''body_bytes'' bodyLen] ''xaccel dedup check''] (w\<lparr>pool := p\<rparr>);
                    storeCtx = store_ctx (h_cfg h) r (hr_ctx x);
                    ((isDuplicate, err), s', ev) =
                      Store_IsDuplicate R (st w1) storeCtx key (DedupWindow (h_cfg h)) (hr_store x);
                    w2 = emit (ev @ [Observe (StoreLatency ''is_duplicate'') (hr_latency x)]) (w1\<lparr>st := s'\<rparr>)
                in case err of
                     Some e \<Rightarrow>
                       Returned () (emit
                         ([if errors_Is e ErrUnavailable
                           then Log WarnLevel [ErrField e, Bool ''fail_open'' (FailOpen (h_cfg h))] ''store unavailable''
                           else Log ErrorLevel [ErrField e] ''store error'',
                           Inc (DedupChecksTotal ''error'')] @ handleStoreErr h r) w2)
                   | None \<Rightarrow>
                       if isDuplicate then
                         Returned () (emit
                           [Log DebugLevel [Str ''key'' key, Str ''method'' (rq_Method r), Str ''uri'' (rq_RequestURI r)]
                              ''duplicate request blocked'',
                            Inc (DedupChecksTotal ''duplicate''), Data 409 jsonContentType duplicateJSON] w2)
                       else
                         Returned () (emit
                           ([Log DebugLevel [Str ''key'' key]
                               (''request allowed '' @ [CHR 0xE2, CHR 0x80, CHR 0x94] @ '' X-Accel-Redirect to upstream''),
                             Inc (DedupChecksTotal ''allowed'')] @ allow h r) w2)))"

section \<open>The health check\<close>

definition errorBody :: "string \<Rightarrow> string \<Rightarrow> json_object" where
  "errorBody err details =
     (''error'', JString err) # (if details = [] then [] else [(''details'', JString details)])"

definition Health_Handle ::
  "'r redis_client \<Rightarrow> http_request \<Rightarrow> 'r world \<Rightarrow> (unit, 'r world) exec" where
  "Health_Handle R r w =
     (let (err, s') = Store_Ping R (st w) (rq_deadline r); w1 = w\<lparr>st := s'\<rparr>
      in case err of
           Some e \<Rightarrow>
             Returned () (emit
               [Log WarnLevel [ErrField e] ''health check: store ping failed'',
                JSON 503 (errorBody ''store_unavailable'' (error_text e))] w1)
         | None \<Rightarrow>
             (case st w1 of
                WithCache cs \<Rightarrow>
                  Returned () (emit
                    [JSON 200 [(''status'', JString ''ok''), (''cache_size'', JInt (int (CacheLen cs)))]] w1)
              | Bare b \<Rightarrow> Returned () (emit [Data 200 jsonContentType healthOKJSON] w1)))"

section \<open>The specification\<close>

datatype verdict = Excluded | Allowed | Duplicate | Failed

fun label :: "verdict \<Rightarrow> string" where
  "label Excluded = ''excluded''"
| "label Allowed = ''allowed''"
| "label Duplicate = ''duplicate''"
| "label Failed = ''error''"

fun verdict_code :: "bool \<Rightarrow> verdict \<Rightarrow> int" where
  "verdict_code failOpen Duplicate = 409"
| "verdict_code failOpen Failed = (if failOpen then 200 else 500)"
| "verdict_code failOpen Excluded = 200"
| "verdict_code failOpen Allowed = 200"

definition body_of :: "http_request \<Rightarrow> reader" where
  "body_of r = (case rq_Body r of None \<Rightarrow> empty_reader | Some b \<Rightarrow> b)"

definition request_key :: "http_request \<Rightarrow> string" where
  "request_key r = fingerprint_key (rq_Method r) (rq_RequestURI r) (concat (rd_chunks (body_of r)))"

fun verdict_of :: "dup_result \<Rightarrow> verdict" where
  "verdict_of (b, Some e) = Failed"
| "verdict_of (b, None) = (if b then Duplicate else Allowed)"

definition decision ::
  "unicode_tables \<Rightarrow> 'r redis_client \<Rightarrow> Config \<Rightarrow> http_request \<Rightarrow> handler_readings \<Rightarrow> 'r store \<Rightarrow> verdict \<times> 'r store" where
  "decision U R cfg r x s =
     (if IsMethodExcluded U cfg (rq_Method r) then (Excluded, s)
      else if rd_err (body_of r) \<noteq> None then (Failed, s)
      else apfst verdict_of
        (store_op R s (store_ctx cfg r (hr_ctx x)) (request_key r) (DedupWindow cfg) (hr_store x)))"

text \<open>
  The calls of one handler run that answer verdict \<open>v\<close>: exactly one outcome is counted, exactly
  one response is made, it redirects exactly when its status is 200, and the counter of requests is
  left to the middleware.
\<close>

definition answers :: "XAccelDedupHandler \<Rightarrow> http_request \<Rightarrow> verdict \<Rightarrow> event list \<Rightarrow> bool" where
  "answers h r v es \<longleftrightarrow>
     outcomes es = [label v] \<and> requests es = [] \<and> response_codes es = [verdict_code (FailOpen (h_cfg h)) v] \<and>
     (\<forall>u. Header ''X-Accel-Redirect'' u \<in> set es \<longleftrightarrow>
        verdict_code (FailOpen (h_cfg h)) v = 200 \<and> u = redirectPrefix h @ rq_RequestURI r)"

lemma Store_IsDuplicate_events:
  assumes "Store_IsDuplicate R s c k d x = (r, s', ev)"
  shows "set ev \<subseteq> {Inc CacheHitsTotal, Inc CacheMissesTotal} \<and> outcomes ev = [] \<and> requests ev = [] \<and> response_codes ev = []"
  using assms
  by (cases s) (auto simp: CachedStore_IsDuplicate_def Let_def split: prod.splits if_splits option.splits)

lemma Handle_decision:
  "\<exists>w' es. Handle U R h r x w = Returned () w' \<and> trace w' = trace w @ es \<and>
     st w' = snd (decision U R (h_cfg h) r x (st w)) \<and>
     answers h r (fst (decision U R (h_cfg h) r x (st w))) es"
proof (cases "IsMethodExcluded U (h_cfg h) (rq_Method r)")
  case True
  then show ?thesis
    by (simp add: Handle_def decision_def answers_def allow_def)
next
  case inc: False
  obtain p where key: "StreamingRedisKey (rq_Method r) (rq_RequestURI r) (body_of r) (hr_pool x) (pool w) =
    Returned
      (case rd_err (body_of r) of
         None \<Rightarrow> request_key r
       | Some e \<Rightarrow> redisKeyPrefix @ string_of_bytes (replicate 64 0),
       word_of_nat (length (concat (rd_chunks (body_of r)))), rd_err (body_of r)) p"
    using StreamingRedisKey_eq unfolding request_key_def by blast
  show ?thesis
  proof (cases "rd_err (body_of r)")
    case (Some e)
    with inc key show ?thesis
      by (simp add: Handle_def body_of_def [symmetric] decision_def answers_def allow_def handleStoreErr_def)
  next
    case None
    obtain b err s' ev where call: "Store_IsDuplicate R (st w) (store_ctx (h_cfg h) r (hr_ctx x))
        (request_key r) (DedupWindow (h_cfg h)) (hr_store x) = ((b, err), s', ev)"
      by (metis surj_pair)
    note ev = Store_IsDuplicate_events [OF call]
    have hd: "Header k v \<notin> set ev" for k v using ev by auto
    from None inc key call ev hd show ?thesis
      by (cases err)
        (auto simp: Handle_def body_of_def [symmetric] decision_def answers_def allow_def handleStoreErr_def
          store_op_def)
  qed
qed

section \<open>Sequences of requests\<close>

text \<open>The requests of a list served one after the other, with the calls each of them made.\<close>

fun serve ::
  "unicode_tables \<Rightarrow> 'r redis_client \<Rightarrow> XAccelDedupHandler \<Rightarrow> (http_request \<times> handler_readings) list \<Rightarrow> 'r world \<Rightarrow>
   ((http_request \<times> event list) list, 'r world) exec" where
  "serve U R h [] w = Returned [] w"
| "serve U R h ((r, x) # qs) w =
     (case Handle U R h r x w of
        Panicked w' \<Rightarrow> Panicked w'
      | Returned _ w' \<Rightarrow>
          (case serve U R h qs w' of
             Panicked w'' \<Rightarrow> Panicked w''
           | Returned rs w'' \<Rightarrow> Returned ((r, drop (length (trace w)) (trace w')) # rs) w''))"

definition same_content :: "http_request \<Rightarrow> http_request \<Rightarrow> bool" where
  "same_content r r' \<longleftrightarrow> rq_Method r = rq_Method r' \<and> rq_RequestURI r = rq_RequestURI r' \<and>
     concat (rd_chunks (body_of r)) = concat (rd_chunks (body_of r'))"

lemma same_content_key: "same_content r r' \<Longrightarrow> request_key r' = request_key r"
  by (simp add: same_content_def request_key_def)

definition refused :: "bool \<Rightarrow> event list \<Rightarrow> bool" where
  "refused failOpen es \<longleftrightarrow>
     (outcomes es = [''duplicate''] \<and> response_codes es = [409]) \<or>
     (outcomes es = [''error''] \<and> response_codes es = [if failOpen then 200 else 500])"

lemma decision_Allowed:
  assumes "fst (decision U R cfg r x s) = Allowed"
  shows "store_op R s (store_ctx cfg r (hr_ctx x)) (request_key r) (DedupWindow cfg) (hr_store x) =
    (allowed, snd (decision U R cfg r x s))"
  using assms by (auto simp: decision_def apfst_def map_prod_def split: if_splits prod.splits elim: verdict_of.elims)

lemma decision_store:
  "snd (decision U R cfg r x s) = s \<or>
   (\<exists>v. store_op R s (store_ctx cfg r (hr_ctx x)) (request_key r) (DedupWindow cfg) (hr_store x) =
      (v, snd (decision U R cfg r x s)))"
  by (auto simp: decision_def apfst_def map_prod_def split: prod.splits)

lemma decision_held:
  assumes "redis_set_nx R ex" and "redis_ttl_ok (DedupWindow cfg)" and "store_held ex s k u"
    and "rd_store (hr_store x) \<le> u"
  shows "store_held ex (snd (decision U R cfg r x s)) k u"
    and "request_key r = k \<Longrightarrow> fst (decision U R cfg r x s) \<noteq> Allowed"
proof -
  note sc = store_contract [OF assms(1)]
  show "store_held ex (snd (decision U R cfg r x s)) k u"
    using decision_store [of U R cfg r x s] blocking_store.held_stays [OF sc _ assms(2,4,3)] assms(3) by metis
  show "request_key r = k \<Longrightarrow> fst (decision U R cfg r x s) \<noteq> Allowed"
    using decision_Allowed [of U R cfg r x s] blocking_store.new_was_free [OF sc _ assms(2)]
      blocking_store.held_until [OF sc assms(3,4)] by metis
qed

lemma answers_refused:
  "answers h r v es \<Longrightarrow> v \<noteq> Allowed \<Longrightarrow> v \<noteq> Excluded \<Longrightarrow> refused (FailOpen (h_cfg h)) es"
  by (cases v) (auto simp: answers_def refused_def)

lemma decision_Excluded:
  "fst (decision U R cfg r x s) = Excluded \<Longrightarrow> IsMethodExcluded U cfg (rq_Method r)"
  by (auto simp: decision_def apfst_def map_prod_def split: if_splits prod.splits elim: verdict_of.elims)

lemma serve_blocks:
  assumes "redis_set_nx R ex" and "redis_ttl_ok (DedupWindow (h_cfg h))" and "store_held ex (st w) k u"
    and "\<forall>(r, x) \<in> set qs. rd_store (hr_store x) \<le> u"
  shows "\<exists>rs w'. serve U R h qs w = Returned rs w' \<and> map fst rs = map fst qs \<and>
    (\<forall>(r, es) \<in> set rs. request_key r = k \<and> \<not> IsMethodExcluded U (h_cfg h) (rq_Method r) \<longrightarrow>
       refused (FailOpen (h_cfg h)) es)"
  using assms(3,4)
proof (induction qs arbitrary: w)
  case (Cons q qs)
  obtain r x where q: "q = (r, x)" by (cases q)
  let ?d = "decision U R (h_cfg h) r x (st w)"
  obtain w1 es where one: "Handle U R h r x w = Returned () w1" "trace w1 = trace w @ es"
      "st w1 = snd ?d" "answers h r (fst ?d) es"
    using Handle_decision by metis
  have t: "rd_store (hr_store x) \<le> u" using Cons.prems(2) q by simp
  note held = decision_held [OF assms(1,2) Cons.prems(1) t, where U = U and r = r]
  have "\<exists>rs w'. serve U R h qs w1 = Returned rs w' \<and> map fst rs = map fst qs \<and>
      (\<forall>(r, es) \<in> set rs. request_key r = k \<and> \<not> IsMethodExcluded U (h_cfg h) (rq_Method r) \<longrightarrow>
        refused (FailOpen (h_cfg h)) es)"
    using Cons.IH [of w1] held(1) one(3) Cons.prems(2) by simp
  moreover have "request_key r = k \<Longrightarrow> \<not> IsMethodExcluded U (h_cfg h) (rq_Method r) \<Longrightarrow>
      refused (FailOpen (h_cfg h)) es"
    using answers_refused [OF one(4)] held(2) decision_Excluded by metis
  ultimately show ?case using q one(1,2) by auto
qed simp

section \<open>Properties\<close>

text \<open>
  C5: the handler implements its specification. For every request, store, pool and configuration
  the handler returns without a panic, leaves the store as \<open>decision\<close> says, counts exactly one
  outcome, makes exactly one response, with the status of the verdict, and sets the redirect header
  exactly when that status is 200.
\<close>

theorem handler_implements_decision:
  "\<exists>w' es. Handle U R h r x w = Returned () w' \<and> trace w' = trace w @ es \<and>
     st w' = snd (decision U R (h_cfg h) r x (st w)) \<and>
     answers h r (fst (decision U R (h_cfg h) r x (st w))) es"
  by (rule Handle_decision)


text \<open>The handler and the world of the examples: an empty Redis server behind the local cache.\<close>

definition sample_handler :: XAccelDedupHandler where
  "sample_handler = NewXAccelDedup default_config (XAccelRedirectPrefix default_config)"

definition sample_world :: "redis_server world" where
  "sample_world =
     \<lparr>st = WithCache (NewCached (RedisBackend \<lparr>client = \<lparr>rs_data = Map.empty, rs_up = True\<rparr>\<rparr>)), pool = [], trace = []\<rparr>"

definition sample_post :: "bytes list \<Rightarrow> http_request" where
  "sample_post cs =
     \<lparr>rq_Method = ''POST'', rq_RequestURI = ''/orders'', rq_Path = ''/orders'', rq_Header = (\<lambda>_. []),
      rq_RemoteAddr = ''10.0.0.1:9000'', rq_TLS = False, rq_Body = Some \<lparr>rd_chunks = cs, rd_err = None\<rparr>,
      rq_deadline = None\<rparr>"

definition sample_readings :: "time \<Rightarrow> handler_readings" where
  "sample_readings t =
     \<lparr>hr_pool = 0, hr_ctx = t, hr_store = \<lparr>rd_now = t, rd_evict = t, rd_store = t, rd_set = t\<rparr>, hr_latency = 0\<rparr>"

lemma default_not_excluded: "\<not> IsMethodExcluded (go_unicode sample_golib) default_config ''POST''"
  by (simp add: IsMethodExcluded_def default_config_def sample_golib_def strings_ToUpper_def is_ascii_def
      ascii_upper_def char_of_def)

lemma sample_decision:
  "fst (decision (go_unicode sample_golib) server_client (h_cfg sample_handler) (sample_post cs)
      (sample_readings t) (st sample_world)) = Allowed"
proof -
  have "\<not> IsMethodExcluded (go_unicode sample_golib) (h_cfg sample_handler) (rq_Method (sample_post cs))"
    using default_not_excluded by (simp add: sample_handler_def NewXAccelDedup_def sample_post_def)
  then show ?thesis
    by (simp add: decision_def sample_world_def store_op_simps sample_post_def body_of_def cached_op_def
        CachedStore_IsDuplicate_def NewCached_def Contains_New Redis_IsDuplicate_def server_client_def
        server_SetArgs_def server_ex_def)
qed


text \<open>
  C10: a fresh request is forwarded. When the store gives an answer at all, and neither the backend
  nor the local cache holds the key of the request, a request with a readable body and a method
  that is not excluded is counted as allowed, gets status 200 and is redirected.
\<close>

theorem fresh_request_allowed:
  assumes "redis_set_nx R ex" and "readings_ok (\<lambda>d t. redis_ttl_ok d) (DedupWindow (h_cfg h)) (hr_store x)"
    and "st w = WithCache c" and "cache_ok (cache c)"
    and "\<not> cached_held (backend_held ex) c (request_key r) (rd_now (hr_store x))"
    and "\<not> IsMethodExcluded U (h_cfg h) (rq_Method r)" and "rd_err (body_of r) = None"
    and "snd (fst (store_op R (st w) (store_ctx (h_cfg h) r (hr_ctx x)) (request_key r)
           (DedupWindow (h_cfg h)) (hr_store x))) = None"
  shows "\<exists>w' es. Handle U R h r x w = Returned () w' \<and> trace w' = trace w @ es \<and>
    outcomes es = [''allowed''] \<and> response_codes es = [200] \<and>
    Header ''X-Accel-Redirect'' (redirectPrefix h @ rq_RequestURI r) \<in> set es"
proof -
  let ?op = "cached_op (backend_IsDuplicate R) c (store_ctx (h_cfg h) r (hr_ctx x)) (request_key r)
      (DedupWindow (h_cfg h)) (hr_store x)"
  have contract: "cached_backend (backend_IsDuplicate R) (\<lambda>d t. redis_ttl_ok d) (backend_held ex)"
    using backend_contract [OF assms(1)] by (simp add: cached_backend_def)
  have "?op \<noteq> (duplicate, s')" for s'
    using tracking_store.dup_was_held [OF cached_backend.cached_tracking [OF contract] _ assms(4,2)] assms(5)
    by blast
  moreover obtain b e s' where op: "?op = ((b, e), s')" by (metis surj_pair)
  ultimately have "?op = (allowed, s')" using assms(3,8) by (auto simp: store_op_simps)
  then have "fst (decision U R (h_cfg h) r x (st w)) = Allowed"
    using assms(3,6,7) by (simp add: decision_def store_op_simps)
  with Handle_decision [of U R h r x w] show ?thesis by (auto simp: answers_def)
qed

theorem fresh_request_allowed_witness:
  "\<exists>w' es. Handle (go_unicode sample_golib) server_client sample_handler (sample_post [[1, 2], [3]])
       (sample_readings 0) sample_world = Returned () w' \<and> trace w' = trace sample_world @ es \<and>
     outcomes es = [''allowed''] \<and> response_codes es = [200] \<and>
     Header ''X-Accel-Redirect'' (redirectPrefix sample_handler @ rq_RequestURI (sample_post [[1, 2], [3]])) \<in> set es"
proof (rule fresh_request_allowed [OF server_set_nx, where c = "NewCached (RedisBackend \<lparr>client = \<lparr>rs_data = Map.empty, rs_up = True\<rparr>\<rparr>)"])
  show "\<not> IsMethodExcluded (go_unicode sample_golib) (h_cfg sample_handler) (rq_Method (sample_post [[1, 2], [3]]))"
    using default_not_excluded by (simp add: sample_handler_def NewXAccelDedup_def sample_post_def)
qed (simp_all add: sample_world_def sample_readings_def sample_handler_def NewXAccelDedup_def default_config_def
    readings_ok_def redis_ttl_ok_def representable_def NewCached_def cached_held_def cache_laws
    server_ex_def sample_post_def body_of_def store_op_simps cached_op_def CachedStore_IsDuplicate_def Contains_New
    Redis_IsDuplicate_def server_client_def server_SetArgs_def)

definition same_treatment :: "'r world \<Rightarrow> 'r world \<Rightarrow> bool" where
  "same_treatment w w' \<longleftrightarrow> st w = st w' \<and> trace w = trace w'"

lemma Handle_cong:
  assumes "same_content r r'" and "rd_err (body_of r) = rd_err (body_of r')"
    and "rq_deadline r = rq_deadline r'" and "same_treatment w w'"
    and "hr_ctx x = hr_ctx x'" "hr_store x = hr_store x'" "hr_latency x = hr_latency x'"
    and "h' = h\<lparr>h_cfg := (h_cfg h)\<lparr>MaxBodyBytes := n\<rparr>\<rparr>"
  shows "\<exists>v v'. Handle U R h r x w = Returned () v \<and> Handle U R h' r' x' w' = Returned () v' \<and> same_treatment v v'"
proof -
  let ?ctx = "store_ctx (h_cfg h) r (hr_ctx x)"
  have same: "rq_Method r' = rq_Method r" "rq_RequestURI r' = rq_RequestURI r" "st w' = st w" "trace w' = trace w"
      "concat (rd_chunks (body_of r')) = concat (rd_chunks (body_of r))" "rd_err (body_of r') = rd_err (body_of r)"
    using assms(1,2,4) by (simp_all add: same_content_def same_treatment_def)
  have cfg: "IsMethodExcluded U (h_cfg h') m = IsMethodExcluded U (h_cfg h) m" "FailOpen (h_cfg h') = FailOpen (h_cfg h)"
      "DedupWindow (h_cfg h') = DedupWindow (h_cfg h)" "redirectPrefix h' = redirectPrefix h" for m
    by (simp_all add: assms(8) IsMethodExcluded_def)
  have ctx: "store_ctx (h_cfg h') r' (hr_ctx x') = ?ctx"
    using assms(3,5) by (simp add: assms(8) store_ctx_def)
  note rest = allow_def handleStoreErr_def emit_def same_treatment_def Handle_def body_of_def [symmetric]
    same cfg ctx assms(5,6,7)
  obtain p where key: "StreamingRedisKey (rq_Method r) (rq_RequestURI r) (body_of r) (hr_pool x) (pool w) =
    Returned
      (case rd_err (body_of r) of None \<Rightarrow> request_key r | Some e \<Rightarrow> redisKeyPrefix @ string_of_bytes (replicate 64 0),
       word_of_nat (length (concat (rd_chunks (body_of r)))), rd_err (body_of r)) p"
    using StreamingRedisKey_eq unfolding request_key_def by blast
  obtain p' where key': "StreamingRedisKey (rq_Method r) (rq_RequestURI r) (body_of r') (hr_pool x') (pool w') =
    Returned
      (case rd_err (body_of r) of None \<Rightarrow> request_key r | Some e \<Rightarrow> redisKeyPrefix @ string_of_bytes (replicate 64 0),
       word_of_nat (length (concat (rd_chunks (body_of r)))), rd_err (body_of r)) p'"
    using StreamingRedisKey_eq same unfolding request_key_def by metis
  obtain b err s' ev where call: "Store_IsDuplicate R (st w) ?ctx (request_key r) (DedupWindow (h_cfg h)) (hr_store x) =
      ((b, err), s', ev)"
    by (metis surj_pair)
  show ?thesis
    by (cases "IsMethodExcluded U (h_cfg h) (rq_Method r)"; cases "rd_err (body_of r)"; cases err; cases b)
      (use key key' call assms(6) in \<open>simp_all add: rest Let_def\<close>)
qed

text \<open>
  C20: who asks does not matter. Two requests with the same method, URI, body bytes, way of ending
  and deadline are treated identically, call by call, from the same store: headers, client
  address, TLS, path, the pieces in which the body arrives, the hash objects in the pool and the
  configured body limit have no influence.
\<close>

theorem handler_ignores_identity:
  assumes "same_content r r'" and "rd_err (body_of r) = rd_err (body_of r')"
    and "rq_deadline r = rq_deadline r'" and "same_treatment w w'"
    and "hr_ctx x = hr_ctx x'" and "hr_store x = hr_store x'" and "hr_latency x = hr_latency x'"
  shows "\<exists>v v'. Handle U R h r x w = Returned () v \<and>
    Handle U R (h\<lparr>h_cfg := (h_cfg h)\<lparr>MaxBodyBytes := n\<rparr>\<rparr>) r' x' w' = Returned () v' \<and> same_treatment v v'"
  by (rule Handle_cong [OF assms refl])

theorem handler_ignores_identity_witness:
  "\<exists>v v'. Handle (go_unicode sample_golib) server_client sample_handler (sample_post [[1, 2], [3]])
      (sample_readings 0) sample_world = Returned () v \<and>
    Handle (go_unicode sample_golib) server_client
      (sample_handler\<lparr>h_cfg := (h_cfg sample_handler)\<lparr>MaxBodyBytes := 1\<rparr>\<rparr>)
      ((sample_post [[1], [2, 3]])\<lparr>rq_Header := (\<lambda>_. ''x''), rq_RemoteAddr := ''10.9.9.9:1'', rq_TLS := True\<rparr>)
      (sample_readings 0) (sample_world\<lparr>pool := [sha256_Write sha256_New [7]]\<rparr>) = Returned () v' \<and>
    same_treatment v v'"
  by (rule handler_ignores_identity)
    (simp_all add: same_content_def sample_post_def body_of_def same_treatment_def)



end
