(* ===== verification/Middleware.thy ===== *)
theory Middleware
  imports Handler "HOL-Library.Signed_Division"
begin

text \<open>
  The package \<open>internal/middleware\<close>. A gin handler takes a request and the world, whose trace
  holds the calls made for this request so far, and returns or panics; a middleware takes the
  handler that \<open>c.Next()\<close> runs. The gin framework is the parameter \<open>gin\<close>: what its
  context answers after the calls made on it, with the documented behaviour as the hypothesis
  \<open>gin_context\<close>.
\<close>

section \<open>Gin\<close>

type_synonym 'r gin_handler = "http_request \<Rightarrow> 'r world \<Rightarrow> (unit, 'r world) exec"

record gin =
  gn_WriterStatus :: "event list \<Rightarrow> int"
  gn_GetString :: "event list \<Rightarrow> string \<Rightarrow> string"
  gn_FullPath :: "http_request \<Rightarrow> string"
  gn_ClientIP :: "http_request \<Rightarrow> string"

fun last_set :: "string \<Rightarrow> event list \<Rightarrow> string" where
  "last_set k [] = []"
| "last_set k (e # es) =
     (case e of
        CtxSet k' v \<Rightarrow> if k' = k \<and> \<not> (\<exists>v'. CtxSet k v' \<in> set es) then v else last_set k es
      | _ \<Rightarrow> last_set k es)"

text \<open>
  The status of the writer is the one the response call asked for, when there is exactly one, and
  \<open>GetString\<close> returns what was last \<open>Set\<close>.
\<close>

definition gin_context :: "gin \<Rightarrow> bool" where
  "gin_context G \<longleftrightarrow>
     (\<forall>es n. response_codes es = [n] \<longrightarrow> gn_WriterStatus G es = n) \<and>
     (\<forall>es k. gn_GetString G es k = last_set k es)"

section \<open>Constants and the status table\<close>

definition RequestIDHeader :: string where
  "RequestIDHeader = ''X-Request-ID''"

definition hstsHeaderValue :: string where
  "hstsHeaderValue = ''max-age=31536000; includeSubDomains''"

definition cspHeaderValue :: string where
  "cspHeaderValue =
     ''default-src 'none'; base-uri 'none'; frame-ancestors 'none'; form-action 'none'' @ [CHR 0x27]"

definition requestIDKey :: string where
  "requestIDKey = ''request_id''"

text \<open>The keys of the log fields, the two messages and the parts of the error responses.\<close>

definition logFieldRequestID :: string where
  "logFieldRequestID = ''request_id''"

definition logFieldMethod :: string where
  "logFieldMethod = ''method''"

definition logFieldPath :: string where
  "logFieldPath = ''path''"

definition logFieldStatus :: string where
  "logFieldStatus = ''status''"

definition logFieldDurationMS :: string where
  "logFieldDurationMS = ''duration_ms''"

definition logFieldRemoteAddr :: string where
  "logFieldRemoteAddr = ''remote_addr''"

definition logFieldUserAgent :: string where
  "logFieldUserAgent = ''user_agent''"

definition logFieldPanic :: string where
  "logFieldPanic = ''panic''"

definition logMessage :: string where
  "logMessage = ''http''"

definition logMessagePanic :: string where
  "logMessagePanic = ''panic recovered''"

definition jsonKeyError :: string where
  "jsonKeyError = ''error''"

definition jsonErrorInternal :: string where
  "jsonErrorInternal = ''internal_error''"

definition jsonErrorNotFound :: string where
  "jsonErrorNotFound = ''not_found''"

lemmas log_constants [simp] = logFieldRequestID_def logFieldMethod_def logFieldPath_def logFieldStatus_def
  logFieldDurationMS_def logFieldRemoteAddr_def logFieldUserAgent_def logFieldPanic_def logMessage_def
  logMessagePanic_def jsonKeyError_def jsonErrorInternal_def jsonErrorNotFound_def

definition statusText :: "(int \<times> string) list" where
  "statusText =
     [(200, ''200''), (201, ''201''), (204, ''204''), (301, ''301''), (302, ''302''), (304, ''304''),
      (400, ''400''), (401, ''401''), (403, ''403''), (404, ''404''), (405, ''405''), (408, ''408''), (409, ''409''),
      (500, ''500''), (502, ''502''), (503, ''503''), (504, ''504'')]"

definition strconv_Itoa :: "int \<Rightarrow> string" where
  "strconv_Itoa n = (if n < 0 then CHR ''-'' # Itoa (nat (- n)) else Itoa (nat n))"

definition statusStr :: "int \<Rightarrow> string" where
  "statusStr code = (case map_of statusText code of Some s \<Rightarrow> s | None \<Rightarrow> strconv_Itoa code)"

section \<open>The middlewares\<close>

text \<open>\<open>hex.EncodeToString\<close> of the random bytes.\<close>

definition hex_EncodeToString :: "bytes \<Rightarrow> string" where
  "hex_EncodeToString bs = string_of_bytes (hex_bytes bs)"

definition RequestID :: "bytes \<Rightarrow> 'r gin_handler \<Rightarrow> 'r gin_handler" where
  "RequestID rnd nxt r w =
     (let id0 = rq_Header r RequestIDHeader;
          id = (if id0 = [] then hex_EncodeToString rnd else id0)
      in nxt r (emit [CtxSet requestIDKey id, Header RequestIDHeader id] w))"

definition Logging :: "gin \<Rightarrow> bool \<Rightarrow> duration \<Rightarrow> 'r gin_handler \<Rightarrow> 'r gin_handler" where
  "Logging G disableRequestLogging d nxt r w =
     (case nxt r w of
        Panicked w' \<Rightarrow> Panicked w'
      | Returned _ w' \<Rightarrow>
          (let status = gn_WriterStatus G (trace w');
               ms = word_of_int (sint d sdiv 1000000);
               common = [Str logFieldRequestID (gn_GetString G (trace w') requestIDKey),
                 Str logFieldMethod (rq_Method r), Str logFieldPath (rq_Path r), IntField logFieldStatus status,
                 Int64 logFieldDurationMS ms]
           in if disableRequestLogging then
                if status \<ge> 400 \<or> sint d > sint (100 * Millisecond)
                then Returned () (emit [Log WarnLevel common logMessage] w')
                else Returned () w'
              else
                let level =
                  (if status \<ge> 500 then ErrorLevel
                   else if (status \<ge> 400 \<and> status \<noteq> 409) \<or> sint d > sint (100 * Millisecond) then WarnLevel
                   else DebugLevel)
                in Returned () (emit
                     [Log level (common @ [Str logFieldRemoteAddr (gn_ClientIP G r),
                        Str logFieldUserAgent (rq_Header r ''User-Agent'')]) logMessage] w')))"

definition Recovery :: "'r gin_handler \<Rightarrow> 'r gin_handler" where
  "Recovery nxt r w =
     (case nxt r w of
        Returned _ w' \<Rightarrow> Returned () w'
      | Panicked w' \<Rightarrow>
          Returned () (emit
            [Log ErrorLevel [Interface logFieldPanic, Str logFieldMethod (rq_Method r), Str logFieldPath (rq_Path r)]
               logMessagePanic,
             AbortWithStatusJSON 500 [(jsonKeyError, JString jsonErrorInternal)]] w'))"

definition Metrics :: "gin \<Rightarrow> duration \<Rightarrow> 'r gin_handler \<Rightarrow> 'r gin_handler" where
  "Metrics G d nxt r w =
     (case nxt r w of
        Panicked w' \<Rightarrow> Panicked w'
      | Returned _ w' \<Rightarrow>
          (let status = statusStr (gn_WriterStatus G (trace w'));
               path0 = gn_FullPath G r;
               path = (if path0 = [] then rq_Path r else path0)
           in Returned () (emit
                [Inc (RequestsTotal (rq_Method r) path status), Observe (RequestDuration (rq_Method r) path) d] w')))"

definition SecurityHeaders :: "'r gin_handler \<Rightarrow> 'r gin_handler" where
  "SecurityHeaders nxt r w =
     (let w1 = (if rq_TLS r \<or> rq_Header r ''X-Forwarded-Proto'' = ''https''
                then emit [Header ''Strict-Transport-Security'' hstsHeaderValue] w else w)
      in nxt r (emit [Header ''Content-Security-Policy'' cspHeaderValue] w1))"

definition NotFound :: "'r gin_handler" where
  "NotFound r w = Returned () (emit [JSON 404 [(jsonKeyError, JString jsonErrorNotFound)]] w)"

section \<open>What a handler promises the middlewares\<close>

text \<open>
  Calls cannot be taken back: a handler adds to the trace it was given, also when it panics. Every
  middleware keeps this, so the calls of a request are those of the middlewares around those of
  the handler.
\<close>

fun final :: "('a, 's) exec \<Rightarrow> 's" where
  "final (Returned a s) = s"
| "final (Panicked s) = s"

locale appending =
  fixes nxt :: "http_request \<Rightarrow> 'r world \<Rightarrow> (unit, 'r world) exec"
  assumes appends: "\<exists>es. trace (final (nxt r w)) = trace w @ es"
begin

lemma RequestID_appends: "appending (RequestID rnd nxt)"
proof
  fix r w
  show "\<exists>es. trace (final (RequestID rnd nxt r w)) = trace w @ es"
    using appends [of r "emit es w" for es] unfolding RequestID_def Let_def by fastforce
qed

lemma SecurityHeaders_appends: "appending (SecurityHeaders nxt)"
proof
  fix r w
  show "\<exists>es. trace (final (SecurityHeaders nxt r w)) = trace w @ es"
    using appends [of r "emit es w" for es] appends [of r "emit es (emit es' w)" for es es']
    unfolding SecurityHeaders_def Let_def by (fastforce split: if_split)
qed

lemma Logging_appends: "appending (Logging G dis d nxt)"
proof
  fix r w
  show "\<exists>es. trace (final (Logging G dis d nxt r w)) = trace w @ es"
    using appends [of r w] by (cases "nxt r w") (auto simp: Logging_def Let_def)
qed

lemma Metrics_appends: "appending (Metrics G d nxt)"
proof
  fix r w
  show "\<exists>es. trace (final (Metrics G d nxt r w)) = trace w @ es"
    using appends [of r w] by (cases "nxt r w") (auto simp: Metrics_def Let_def)
qed

lemma Recovery_appends: "appending (Recovery nxt)"
proof
  fix r w
  show "\<exists>es. trace (final (Recovery nxt r w)) = trace w @ es"
    using appends [of r w] by (cases "nxt r w") (auto simp: Recovery_def)
qed

lemma returned_appends: "nxt r w = Returned u w' \<Longrightarrow> \<exists>es. trace w' = trace w @ es"
  using appends [of r w] by simp

end

interpretation xaccel: appending "\<lambda>r. Handle U R h r x" for U R h x
proof
  fix r w
  show "\<exists>es. trace (final (Handle U R h r x w)) = trace w @ es"
    using Handle_decision [of U R h r x w] by auto
qed

interpretation health: appending "Health_Handle R" for R
proof
  fix r w
  show "\<exists>es. trace (final (Health_Handle R r w)) = trace w @ es"
    by (simp add: Health_Handle_def Let_def split: prod.split option.split store.split)
qed

lemma statusText_sound: "map_of statusText n = Some s \<Longrightarrow> s = strconv_Itoa n"
proof -
  have "list_all (\<lambda>(n, s). s = strconv_Itoa n) statusText" by code_simp
  then show "map_of statusText n = Some s \<Longrightarrow> s = strconv_Itoa n"
    by (auto simp: list_all_iff dest: map_of_SomeD)
qed

lemma level_ge_Warn: "WarnLevel \<le> l \<longleftrightarrow> l = WarnLevel \<or> l = ErrorLevel"
  by (cases l) (simp_all add: less_eq_level_def)

section \<open>Properties\<close>

text \<open>
  C40: the table of status strings is only an optimisation: for every status code, in the table or
  not, \<open>statusStr\<close> returns its decimal representation.
\<close>

theorem statusStr_eq_Itoa: "statusStr n = strconv_Itoa n"
  using statusText_sound [of n] by (simp add: statusStr_def split: option.split)

text \<open>
  C30: when a request is logged so that it surfaces. After a handler that made one response, with
  status \<open>n\<close>, in time \<open>d\<close>, the logging middleware writes a line at warning level or above
  exactly when the status is an error, other than 409, or the request took more than 100 ms; a 409
  gives a warning exactly when request logging is disabled or the request was slow. The line carries
  the request ID the client gets.
\<close>

theorem logging_surfaces_errors_and_slow_requests:
  assumes "gin_context G" and "nxt r w = Returned () w'" and "response_codes (trace w') = [n]"
  shows "\<exists>es. Logging G dis d nxt r w = Returned () (emit es w') \<and>
    ((\<exists>l fs. Log l fs ''http'' \<in> set es \<and> WarnLevel \<le> l \<and>
        Str ''request_id'' (last_set requestIDKey (trace w')) \<in> set fs) \<longleftrightarrow>
      (n \<ge> 400 \<and> (n \<noteq> 409 \<or> dis)) \<or> sint d > 100000000)"
proof -
  have n: "gn_WriterStatus G (trace w') = n" and id: "gn_GetString G (trace w') requestIDKey = last_set requestIDKey (trace w')"
    using assms(1,3) by (simp_all add: gin_context_def)
  have ms: "sint (100 * Millisecond) = 100000000" by (simp add: Millisecond_def)
  show ?thesis
  proof (cases dis)
    case dis: True
    show ?thesis
    proof (cases "n \<ge> 400 \<or> sint d > 100000000")
      case True
      with dis assms(2) n id ms show ?thesis
        by (auto simp: Logging_def Let_def level_ge_Warn emit_def)
    next
      case False
      with dis assms(2) n id ms show ?thesis
        by (auto simp: Logging_def Let_def emit_def intro!: exI [of _ "[]"])
    qed
  next
    case False
    with assms(2) n id ms show ?thesis
      by (auto simp: Logging_def Let_def level_ge_Warn emit_def)
  qed
qed

text \<open>A gin context that behaves as documented.\<close>

definition sample_gin :: gin where
  "sample_gin =
     \<lparr>gn_WriterStatus = (\<lambda>es. last (200 # response_codes es)), gn_GetString = (\<lambda>es k. last_set k es),
      gn_FullPath = (\<lambda>_. []), gn_ClientIP = rq_RemoteAddr\<rparr>"

lemma sample_gin_context: "gin_context sample_gin"
  by (simp add: gin_context_def sample_gin_def)

theorem logging_surfaces_errors_and_slow_requests_witness:
  "\<exists>es. Logging sample_gin False 5 NotFound (sample_post []) sample_world =
      Returned () (emit es (emit [JSON 404 [(''error'', JString ''not_found'')]] sample_world)) \<and>
    (\<exists>l fs. Log l fs ''http'' \<in> set es \<and> WarnLevel \<le> l)"
proof -
  let ?w = "emit [JSON 404 [(''error'', JString ''not_found'')]] sample_world"
  have "NotFound (sample_post []) sample_world = Returned () ?w" by (simp add: NotFound_def)
  from logging_surfaces_errors_and_slow_requests [where nxt = NotFound, OF sample_gin_context this, of 404 False 5]
  show ?thesis by (auto simp: sample_world_def)
qed

end
