(* ===== verification/Server.thy ===== *)
theory Server
  imports Middleware
begin

text \<open>
  The command \<open>cmd/server/main.go\<close>: how the store is chosen at start-up, wrapped and closed,
  which middlewares surround which handler, the settings of the HTTP server, and the ways
  \<open>run\<close> ends. What the operating system and the libraries answer is the record \<open>run_env\<close>;
  the routing tree of gin is the parameter \<open>gin_router\<close>. The writing
  of log lines to the file and to standard output is left to the libraries.
\<close>

section \<open>The store at start-up\<close>

datatype closer = CloseNothing | CloseRedis | CloseCached

definition initStore :: "'r redis_client \<Rightarrow> Config \<Rightarrow> time \<Rightarrow> error + 'r backend_store \<times> closer \<times> event list" where
  "initStore R cfg now =
     (case NewRedis R cfg now of
        Inl err \<Rightarrow>
          if \<not> FailOpen cfg then Inl (Prefixed ''redis unavailable and fail-open is disabled'' err)
          else Inr (MemoryBackend (NewMemory\<lparr>Err := Some ErrUnavailable\<rparr>), CloseNothing,
            [Log WarnLevel [ErrField err, Str ''redis_addr'' (RedisAddr cfg)]
               ''redis unavailable at startup; running fail-open (all requests allowed)''])
      | Inr redisStore \<Rightarrow> Inr (RedisBackend redisStore, CloseRedis, []))"

definition wrapStore :: "Config \<Rightarrow> 'r backend_store \<Rightarrow> closer \<Rightarrow> 'r store \<times> closer \<times> event list" where
  "wrapStore cfg s closeStore =
     (if LocalCacheEnabled cfg
      then (WithCache (NewCached s), CloseCached, [Log InfoLevel [] ''L1 local cache enabled''])
      else (Bare s, closeStore, []))"

text \<open>
  What the deferred \<open>closeStore\<close> does. The one of the cached store ignores the error and does
  not run the one it replaces.
\<close>

fun closeStore :: "'r redis_client \<Rightarrow> closer \<Rightarrow> 'r world \<Rightarrow> 'r world" where
  "closeStore R CloseNothing w = w"
| "closeStore R CloseRedis w =
     (let (err, s') = Store_Close R (st w); w' = w\<lparr>st := s'\<rparr>
      in case err of
           Some e \<Rightarrow> emit [Log WarnLevel [ErrField e] ''redis close error''] w'
         | None \<Rightarrow> w')"
| "closeStore R CloseCached w = (let (_, s') = Store_Close R (st w) in w\<lparr>st := s'\<rparr>)"

section \<open>Routes and middlewares\<close>

text \<open>
  The routing tree of gin: a request matches a registered route, is redirected to one that differs
  by a trailing slash, or matches none.
\<close>

datatype route_result = Matched string | Redirected | NoRoute

type_synonym gin_router = "(string \<times> string) list \<Rightarrow> string \<Rightarrow> string \<Rightarrow> route_result"

definition pprof_names :: "string list" where
  "pprof_names =
     ['''', ''cmdline'', ''profile'', ''symbol'', ''trace'', ''allocs'', ''block'', ''goroutine'', ''heap'', ''mutex'',
      ''threadcreate'']"

definition routes :: "(string \<times> string) list" where
  "routes = (''GET'', ''/healthz'') # (''GET'', ''/metrics'') # map (\<lambda>n. (''GET'', ''/debug/pprof/'' @ n)) pprof_names"

definition gin_routing :: "gin_router \<Rightarrow> bool" where
  "gin_routing G \<longleftrightarrow>
     (\<forall>rs m p. ((m, p) \<in> set rs \<longrightarrow> G rs m p = Matched p) \<and>
       ((m, p) \<notin> set rs \<longrightarrow> G rs m p \<in> {Redirected, NoRoute}) \<and>
       (m \<notin> fst ` set rs \<longrightarrow> G rs m p = NoRoute))"

record request_readings =
  qr_rand :: bytes
  qr_log :: duration
  qr_metrics :: duration
  qr_handler :: handler_readings

definition chain :: "gin \<Rightarrow> Config \<Rightarrow> request_readings \<Rightarrow> 'r gin_handler \<Rightarrow> 'r gin_handler" where
  "chain G cfg x h =
     Recovery (RequestID (qr_rand x) (SecurityHeaders
       (Logging G (DisableRequestLogging cfg) (qr_log x) (Metrics G (qr_metrics x) h))))"

text \<open>The handlers behind \<open>gin.WrapH\<close> and \<open>gin.WrapF\<close> belong to libraries.\<close>

definition route_handler :: "'r redis_client \<Rightarrow> string \<Rightarrow> 'r gin_handler" where
  "route_handler R p =
     (if p = ''/healthz'' then Health_Handle R else (\<lambda>r w. Returned () (emit [Forwarded p] w)))"

definition serve_http ::
  "unicode_tables \<Rightarrow> 'r redis_client \<Rightarrow> gin \<Rightarrow> gin_router \<Rightarrow> Config \<Rightarrow> request_readings \<Rightarrow> 'r gin_handler" where
  "serve_http U R G rt cfg x r w =
     (let w0 = w\<lparr>trace := []\<rparr>
      in case rt routes (rq_Method r) (rq_Path r) of
           Redirected \<Rightarrow> Returned () (emit [Forwarded ''redirect''] w0)
         | Matched p \<Rightarrow> chain G cfg x (route_handler R p) r w0
         | NoRoute \<Rightarrow>
             chain G cfg x (\<lambda>r. Handle U R (NewXAccelDedup cfg (XAccelRedirectPrefix cfg)) r (qr_handler x)) r w0)"

section \<open>The HTTP server\<close>

definition http_Server :: "Config \<Rightarrow> http_server" where
  "http_Server cfg =
     \<lparr>sv_Addr = ListenAddr cfg,
      sv_ReadTimeout = 5 * RedisReadTimeout cfg,
      sv_WriteTimeout = 5 * RedisWriteTimeout cfg,
      sv_IdleTimeout = 60 * RedisDialTimeout cfg,
      sv_MinVersion =
        (if TLSEnabled cfg then Some (if TLSMinVersion cfg = ''1.3'' then 0x0304 else 0x0303) else None)\<rparr>"

section \<open>The life of the process\<close>

text \<open>
  How the wait at the end of \<open>run\<close> is over: the listening goroutine returned, with an error of
  \<open>ListenAndServe\<close> or without one, or a signal came first. \<open>re_shutdown\<close> is what
  \<open>srv.Shutdown\<close> returns.
\<close>

datatype wakeup = ServeReturned "error option" | Signalled string

record run_env =
  re_now :: time
  re_ParseLevel :: "string \<Rightarrow> error + int"
  re_MkdirAll :: "string \<Rightarrow> error option"
  re_oldGC :: int
  re_wakeup :: wakeup
  re_shutdown :: "error option"

text \<open>What the listening goroutine sends on its channel before closing it.\<close>

definition server_error :: "error option \<Rightarrow> error option" where
  "server_error err =
     (case err of
        Some e \<Rightarrow> if errors_Is e ErrServerClosed then None else Some (Prefixed ''http server'' e)
      | None \<Rightarrow> None)"

definition finish :: "run_env \<Rightarrow> Config \<Rightarrow> 'r world \<Rightarrow> error option \<times> 'r world" where
  "finish E cfg w =
     (let shutdown = (\<lambda>w. let w' = emit [Shutdown (ShutdownTimeout cfg)] w in
          case re_shutdown E of
            Some e \<Rightarrow> (Some (Prefixed ''graceful shutdown'' e), w')
          | None \<Rightarrow> (None, emit [Log InfoLevel [] ''server stopped''] w'))
      in case re_wakeup E of
           ServeReturned err \<Rightarrow>
             (case server_error err of Some e \<Rightarrow> (Some e, w) | None \<Rightarrow> shutdown w)
         | Signalled sig \<Rightarrow> shutdown (emit [Log InfoLevel [Str ''signal'' sig] ''shutdown signal received''] w))"

fun serve_all ::
  "unicode_tables \<Rightarrow> 'r redis_client \<Rightarrow> gin \<Rightarrow> gin_router \<Rightarrow> Config \<Rightarrow> (http_request \<times> request_readings) list \<Rightarrow>
   'r world \<Rightarrow> event list list \<times> 'r world" where
  "serve_all U R G rt cfg [] w = ([], w)"
| "serve_all U R G rt cfg ((r, x) # qs) w =
     (let w' = final (serve_http U R G rt cfg x r w); (ts, w'') = serve_all U R G rt cfg qs w'
      in (trace w' # ts, w''))"

text \<open>The log lines and settings of the start-up, in the order of the code.\<close>

definition log_level :: "run_env \<Rightarrow> Config \<Rightarrow> int" where
  "log_level E cfg = (case re_ParseLevel E (LogLevel cfg) of Inl _ \<Rightarrow> 1 | Inr l \<Rightarrow> l)"

definition starting_line :: "Config \<Rightarrow> event" where
  "starting_line cfg =
     Log InfoLevel
       [Str ''addr'' (ListenAddr cfg), Bool ''tls_enabled'' (TLSEnabled cfg), Str ''tls_min_version'' (TLSMinVersion cfg),
        Str ''redis'' (RedisAddr cfg), IntField ''redis_db'' (RedisDB cfg),
        Str ''dedup_window'' (Duration_String (DedupWindow cfg)), Int64 ''max_body_bytes'' (word_of_int (MaxBodyBytes cfg)),
        Bool ''fail_open'' (FailOpen cfg), Strs ''exclude_methods'' (ExcludeMethods cfg)]
       ''starting dedup-service''"

definition gc_tuning :: "run_env \<Rightarrow> Config \<Rightarrow> event list" where
  "gc_tuning E cfg =
     (if GOGC cfg > 0
      then [SetGCPercent (GOGC cfg),
            Log InfoLevel [IntField ''gogc_old'' (re_oldGC E), IntField ''gogc_new'' (GOGC cfg)] ''GC tuning applied'']
      else [])"

definition logRotator :: "Config \<Rightarrow> lumberjack_Logger" where
  "logRotator cfg =
     \<lparr>Filename = LogFile cfg, MaxSize = LogMaxSizeMB cfg, MaxBackups = LogMaxBackups cfg, MaxAge = LogMaxAgeDays cfg,
      Compress = LogCompress cfg\<rparr>"

definition listening :: "Config \<Rightarrow> event list" where
  "listening cfg =
     (if TLSEnabled cfg
      then [Log InfoLevel [Str ''addr'' (ListenAddr cfg), Str ''cert_file'' (TLSCertFile cfg), Str ''key_file'' (TLSKeyFile cfg),
             Str ''tls_min_version'' (TLSMinVersion cfg)] ''https server listening'',
            ListenAndServeTLS (http_Server cfg) (TLSCertFile cfg) (TLSKeyFile cfg)]
      else [Log InfoLevel [Str ''addr'' (ListenAddr cfg)] ''http server listening'', ListenAndServe (http_Server cfg)])"

text \<open>
  \<open>run\<close>: load, make the log directory, connect, wrap, serve, finish; the deferred
  \<open>closeStore\<close> runs last on every path that got past \<open>initStore\<close>. The result has the
  error, the calls of the start-up and of each request, and the world if there is one. The log file
  is closed after the store, the order of the deferred calls reversed.
\<close>

definition run ::
  "golib \<Rightarrow> viper \<Rightarrow> 'r redis_client \<Rightarrow> gin \<Rightarrow> gin_router \<Rightarrow> run_env \<Rightarrow> (http_request \<times> request_readings) list \<Rightarrow>
   error option \<times> event list list \<times> 'r world option" where
  "run L V R G rt E qs =
     (case Load L V [] of
        Inl err \<Rightarrow> (Some (Prefixed ''config'' err), [], None)
      | Inr cfg \<Rightarrow>
          (let logDir = filepath_Dir (LogFile cfg);
               ev0 = [SetGlobalLevel (log_level E cfg)];
               ev1 = ev0 @ [OpenLog (logRotator cfg), starting_line cfg]
           in case re_MkdirAll E logDir of
                Some err \<Rightarrow> (Some (Prefixed (''creating log directory '' @ logDir) err), [ev0], None)
              | None \<Rightarrow>
                  (case initStore R cfg (re_now E) of
                     Inl err \<Rightarrow> (Some err, [ev1 @ [CloseLog]], None)
                   | Inr (s, close0, ev2) \<Rightarrow>
                       (let (dedupStore, close1, ev3) = wrapStore cfg s close0;
                            ev4 = [SetMode ''release'',
                              Log InfoLevel [Str ''redirect_prefix'' (XAccelRedirectPrefix cfg)]
                                ''X-Accel-Redirect mode enabled (body-based dedup, Nginx forwards)''];
                            ev = ev1 @ ev2 @ gc_tuning E cfg @ ev3 @ ev4 @ listening cfg;
                            w0 = \<lparr>st = dedupStore, pool = [], trace = ev\<rparr>;
                            (ts, w1) = serve_all (go_unicode L) R G rt cfg qs w0;
                            (err, w2) = finish E cfg w1
                        in (err, ev # ts, Some (emit [CloseLog] (closeStore R close1 w2)))))))"

text \<open>The exit status of \<open>main\<close>.\<close>

definition main_exit :: "error option \<Rightarrow> int" where
  "main_exit err = (case err of Some _ \<Rightarrow> 1 | None \<Rightarrow> 0)"

section \<open>The chain around a handler\<close>

text \<open>The calls the outer middlewares make before the handler runs.\<close>

definition request_id :: "bytes \<Rightarrow> http_request \<Rightarrow> string" where
  "request_id rnd r = (if rq_Header r RequestIDHeader = [] then hex_EncodeToString rnd else rq_Header r RequestIDHeader)"

definition preamble :: "bytes \<Rightarrow> http_request \<Rightarrow> event list" where
  "preamble rnd r =
     [CtxSet requestIDKey (request_id rnd r), Header RequestIDHeader (request_id rnd r)] @
     (if rq_TLS r \<or> rq_Header r ''X-Forwarded-Proto'' = ''https''
      then [Header ''Strict-Transport-Security'' hstsHeaderValue] else []) @
     [Header ''Content-Security-Policy'' cspHeaderValue]"

lemma preamble_silent [simp]:
  "response_codes (preamble rnd r) = []" "outcomes (preamble rnd r) = []" "requests (preamble rnd r) = []"
  by (simp_all add: preamble_def)

lemma emit_emit: "emit es (emit fs w) = emit (fs @ es) w"
  by (simp add: emit_def)

lemma chain_eq:
  "chain G cfg x h r w =
     Recovery (Logging G (DisableRequestLogging cfg) (qr_log x) (Metrics G (qr_metrics x) h)) r
       (emit (preamble (qr_rand x) r) w)"
  by (auto simp: chain_def Recovery_def RequestID_def SecurityHeaders_def preamble_def request_id_def emit_emit Let_def)

lemma Logging_lines:
  assumes "nxt r w = Returned () w'"
  shows "\<exists>ls. Logging G dis d nxt r w = Returned () (emit ls w') \<and>
    response_codes ls = [] \<and> outcomes ls = [] \<and> requests ls = []"
proof -
  let ?slow = "gn_WriterStatus G (trace w') \<ge> 400 \<or> sint d > sint (100 * Millisecond)"
  have "w' = emit [] w'" by (simp add: emit_def)
  then have quiet: "dis \<and> \<not> ?slow \<Longrightarrow> Logging G dis d nxt r w = Returned () (emit [] w')"
    using assms by (simp add: Logging_def Let_def)
  have "\<not> (dis \<and> \<not> ?slow) \<Longrightarrow> \<exists>l fs m. Logging G dis d nxt r w = Returned () (emit [Log l fs m] w')"
    using assms by (cases dis) (simp_all add: Logging_def Let_def, blast+)
  then obtain l fs m where "dis \<and> \<not> ?slow \<or> Logging G dis d nxt r w = Returned () (emit [Log l fs m] w')"
    by blast
  with quiet show ?thesis by (elim disjE) (fastforce intro: exI [of _ "[]"] exI [of _ "[Log l fs m]"])+
qed

lemma chain_returned:
  assumes "gin_context G" and "h r (emit (preamble (qr_rand x) r) w) = Returned () w'"
    and "trace w = []" and "trace w' = preamble (qr_rand x) r @ es" and "response_codes es = [n]"
  shows "\<exists>post. chain G cfg x h r w = Returned () (emit post w') \<and> response_codes post = [] \<and> outcomes post = [] \<and>
    requests post = [(rq_Method r, if gn_FullPath G r = [] then rq_Path r else gn_FullPath G r, strconv_Itoa n)]"
proof -
  let ?p = "if gn_FullPath G r = [] then rq_Path r else gn_FullPath G r"
  let ?m = "[Inc (RequestsTotal (rq_Method r) ?p (strconv_Itoa n)), Observe (RequestDuration (rq_Method r) ?p) (qr_metrics x)]"
  have "gn_WriterStatus G (trace w') = n" using assms(1,4,5) by (simp add: gin_context_def)
  then have "Metrics G (qr_metrics x) h r (emit (preamble (qr_rand x) r) w) = Returned () (emit ?m w')"
    using assms(2) statusText_sound by (auto simp: Metrics_def Let_def statusStr_def split: option.split)
  from Logging_lines [of "Metrics G (qr_metrics x) h", OF this] obtain ls where
    "Logging G (DisableRequestLogging cfg) (qr_log x) (Metrics G (qr_metrics x) h) r
       (emit (preamble (qr_rand x) r) w) = Returned () (emit ls (emit ?m w'))"
    "response_codes ls = []" "outcomes ls = []" "requests ls = []"
    by blast
  then show ?thesis
    by (auto simp: chain_eq Recovery_def emit_emit intro!: exI [of _ "?m @ ls"])
qed

lemma chain_panicked:
  assumes "h r (emit (preamble (qr_rand x) r) w) = Panicked w'"
  shows "chain G cfg x h r w = Returned () (emit
    [Log ErrorLevel [Interface ''panic'', Str ''method'' (rq_Method r), Str ''path'' (rq_Path r)] ''panic recovered'',
     AbortWithStatusJSON 500 [(''error'', JString ''internal_error'')]] w')"
  using assms by (simp add: chain_eq Recovery_def Logging_def Metrics_def)

lemma gin_routing_other_method:
  assumes "gin_routing rt" and "rq_Method r \<noteq> ''GET''"
  shows "rt routes (rq_Method r) (rq_Path r) = NoRoute"
proof -
  have "rq_Method r \<notin> fst ` set routes" using assms(2) by (auto simp: routes_def)
  with assms(1) show ?thesis by (simp add: gin_routing_def)
qed

text \<open>Through the whole service, a request gets the verdict of the specification.\<close>

lemma service_decision:
  assumes "gin_context G" and "gin_routing rt" and "rq_Method r \<noteq> ''GET''"
    and "decision U R cfg r (qr_handler x) (st w) = (v, s')"
  shows "\<exists>w' es. serve_http U R G rt cfg x r w = Returned () w' \<and> st w' = s' \<and>
    trace w' = preamble (qr_rand x) r @ es \<and>
    response_codes (trace w') = [verdict_code (FailOpen cfg) v] \<and> outcomes (trace w') = [label v] \<and>
    requests (trace w') = [(rq_Method r, if gn_FullPath G r = [] then rq_Path r else gn_FullPath G r,
      strconv_Itoa (verdict_code (FailOpen cfg) v))]"
proof -
  let ?h = "NewXAccelDedup cfg (XAccelRedirectPrefix cfg)"
  let ?w0 = "w\<lparr>trace := []\<rparr>"
  have cfg: "h_cfg ?h = cfg" by (simp add: NewXAccelDedup_def)
  obtain w' es where one: "Handle U R ?h r (qr_handler x) (emit (preamble (qr_rand x) r) ?w0) = Returned () w'"
      "trace w' = preamble (qr_rand x) r @ es" "st w' = s'" "answers ?h r v es"
    using Handle_decision [of U R ?h r "qr_handler x" "emit (preamble (qr_rand x) r) ?w0"] assms(4) cfg by auto
  have codes: "response_codes es = [verdict_code (FailOpen cfg) v]" "outcomes es = [label v]" "requests es = []"
    using one(4) cfg by (simp_all add: answers_def)
  from chain_returned [of G "\<lambda>r. Handle U R ?h r (qr_handler x)", OF assms(1) one(1) _ one(2) codes(1), of cfg]
  obtain post where post: "chain G cfg x (\<lambda>r. Handle U R ?h r (qr_handler x)) r ?w0 = Returned () (emit post w')"
      "response_codes post = []" "outcomes post = []"
      "requests post = [(rq_Method r, if gn_FullPath G r = [] then rq_Path r else gn_FullPath G r,
        strconv_Itoa (verdict_code (FailOpen cfg) v))]"
    by auto
  have "serve_http U R G rt cfg x r w = Returned () (emit post w')"
    using post(1) gin_routing_other_method [OF assms(2,3)] by (simp add: serve_http_def)
  then show ?thesis using one(2,3) codes post(2-4) by auto
qed

text \<open>
  Requests of every kind leave a held key held: other requests to the deduplication handler, health
  checks, and those answered by libraries. \<open>redis_ping_keeps\<close>: \<open>PING\<close> deletes no key.
\<close>

definition redis_ping_keeps :: "'r redis_client \<Rightarrow> ('r \<Rightarrow> string \<Rightarrow> time \<Rightarrow> bool) \<Rightarrow> bool" where
  "redis_ping_keeps R ex \<longleftrightarrow> (\<forall>r c err r' k u. rc_Ping R r c = (err, r') \<longrightarrow> ex r k u \<longrightarrow> ex r' k u)"

lemma Store_Ping_held:
  assumes "redis_ping_keeps R ex" and "store_held ex s k u"
  shows "store_held ex (snd (Store_Ping R s c)) k u"
proof -
  have bk: "backend_held ex b k u \<Longrightarrow> backend_held ex (snd (backend_Ping R b c)) k u" for b
    using assms(1)
    by (cases b) (auto simp: redis_ping_keeps_def Redis_Ping_def Memory_Ping_def Let_def split: prod.splits option.splits)
  show ?thesis
  proof (cases s)
    case (Bare b)
    with bk assms(2) show ?thesis by (simp add: case_prod_beta)
  next
    case (WithCache cs)
    with bk assms(2) show ?thesis by (simp add: CachedStore_Ping_def case_prod_beta)
  qed
qed

lemma chain_store: "st (final (chain G cfg x h r w)) = st (final (h r (emit (preamble (qr_rand x) r) w)))"
  by (cases "h r (emit (preamble (qr_rand x) r) w)")
    (simp_all add: chain_eq Recovery_def Logging_def Metrics_def Let_def)

lemma serve_http_held:
  assumes "redis_set_nx R ex" and "redis_ping_keeps R ex" and "redis_ttl_ok (DedupWindow cfg)"
    and "store_held ex (st w) k u" and "rd_store (hr_store (qr_handler x)) \<le> u"
  shows "store_held ex (st (final (serve_http U R G rt cfg x r w))) k u"
proof -
  let ?h = "NewXAccelDedup cfg (XAccelRedirectPrefix cfg)"
  have "store_held ex (st (final (Handle U R ?h r (qr_handler x) w'))) k u" if "st w' = st w" for w'
    using Handle_decision [of U R ?h r "qr_handler x" w'] decision_held(1) [OF assms(1,3,4,5), of U r] that
    by (auto simp: NewXAccelDedup_def)
  moreover have "store_held ex (st (final (Health_Handle R r w'))) k u" if "st w' = st w" for w'
    using Store_Ping_held [OF assms(2,4), of "rq_deadline r"] that
    by (auto simp: Health_Handle_def Let_def split: prod.split option.split store.split)
  ultimately show ?thesis
    using assms(4) by (simp add: serve_http_def Let_def chain_store route_handler_def split: route_result.split)
qed

lemma serve_all_blocks:
  assumes "gin_context G" and "gin_routing rt" and "redis_set_nx R ex" and "redis_ping_keeps R ex"
    and "redis_ttl_ok (DedupWindow cfg)" and "store_held ex (st w) k u"
    and "\<forall>(r, x) \<in> set qs. rd_store (hr_store (qr_handler x)) \<le> u"
  shows "length (fst (serve_all U R G rt cfg qs w)) = length qs \<and>
    (\<forall>((r, x), t) \<in> set (zip qs (fst (serve_all U R G rt cfg qs w))).
       request_key r = k \<and> rq_Method r \<noteq> ''GET'' \<and> \<not> IsMethodExcluded U cfg (rq_Method r) \<longrightarrow> refused (FailOpen cfg) t)"
  using assms(6,7)
proof (induction qs arbitrary: w)
  case (Cons q qs)
  obtain r x where q: "q = (r, x)" by (cases q)
  with Cons.prems have x: "rd_store (hr_store (qr_handler x)) \<le> u" by simp
  let ?w = "final (serve_http U R G rt cfg x r w)"
  have "refused (FailOpen cfg) (trace ?w)"
    if r: "request_key r = k" "rq_Method r \<noteq> ''GET''" "\<not> IsMethodExcluded U cfg (rq_Method r)"
  proof -
    obtain v s' where d: "decision U R cfg r (qr_handler x) (st w) = (v, s')" by fastforce
    with decision_held(2) [OF assms(3,5) Cons.prems(1) x r(1), of U] decision_Excluded [of U R cfg r "qr_handler x" "st w"] r(3)
    have "v \<noteq> Allowed" "v \<noteq> Excluded" by auto
    with service_decision [OF assms(1,2) r(2) d] show ?thesis by (cases v) (auto simp: refused_def)
  qed
  moreover have "store_held ex (st ?w) k u" by (rule serve_http_held [OF assms(3-5) Cons.prems(1) x])
  ultimately show ?case using Cons.IH [of ?w] Cons.prems(2) q by (auto simp: Let_def case_prod_beta)
qed simp

section \<open>Properties\<close>


text \<open>A router that behaves as documented, and the readings of a request in the examples.\<close>

definition sample_router :: gin_router where
  "sample_router rs m p = (if (m, p) \<in> set rs then Matched p else NoRoute)"

lemma sample_gin_routing: "gin_routing sample_router"
  by (force simp: gin_routing_def sample_router_def)

definition sample_request_readings :: "time \<Rightarrow> request_readings" where
  "sample_request_readings t =
     \<lparr>qr_rand = replicate 16 0xAB, qr_log = 0, qr_metrics = 0, qr_handler = sample_readings t\<rparr>"




text \<open>
  C29: a panic in a handler is answered with 500, once, and logged; but neither the request counter
  nor the access log sees the request, because the panic unwinds both middlewares before the
  outermost one recovers it.
\<close>

theorem panic_is_500_and_not_counted:
  assumes "h r (emit (preamble (qr_rand x) r) w) = Panicked w'" and "trace w = []"
    and "trace w' = preamble (qr_rand x) r @ es" and "response_codes es = []"
  shows "\<exists>w'' l fs. chain G cfg x h r w = Returned () w'' \<and>
    response_codes (trace w'') = [500] \<and> requests (trace w'') = requests es \<and>
    trace w'' = trace w' @ [Log l fs ''panic recovered'', AbortWithStatusJSON 500 [(''error'', JString ''internal_error'')]]"
  using chain_panicked [of h r x w w' G cfg, OF assms(1)] assms(3,4) by simp

theorem panic_is_500_and_not_counted_witness:
  "\<exists>w'' l fs. chain sample_gin default_config (sample_request_readings 0) (\<lambda>r w. Panicked w) (sample_post []) sample_world =
      Returned () w'' \<and> response_codes (trace w'') = [500] \<and> requests (trace w'') = []"
proof -
  let ?w = "emit (preamble (qr_rand (sample_request_readings 0)) (sample_post [])) sample_world"
  have "(\<lambda>r w. Panicked w) (sample_post []) ?w = Panicked ?w" by simp
  from panic_is_500_and_not_counted [of "\<lambda>r w. Panicked w" "sample_post []" "sample_request_readings 0" sample_world ?w,
      OF this, of "[]" sample_gin default_config]
  show ?thesis by (auto simp: sample_world_def)
qed

section \<open>Degraded mode\<close>

fun degraded :: "'r store \<Rightarrow> bool" where
  "degraded (Bare (MemoryBackend m)) \<longleftrightarrow> Err m = Some ErrUnavailable"
| "degraded (Bare (RedisBackend s)) \<longleftrightarrow> False"
| "degraded (WithCache c) \<longleftrightarrow>
     cache c = NewLocalCache \<and>
     (case backend c of MemoryBackend m \<Rightarrow> Err m = Some ErrUnavailable | RedisBackend s \<Rightarrow> False)"

lemma degraded_op:
  assumes "degraded s"
  shows "store_op R s ctx k d x = ((False, Some ErrUnavailable), s)"
  using assms
  by (cases s rule: degraded.cases)
    (auto simp: store_op_simps cached_op_def CachedStore_IsDuplicate_def Contains_New Memory_IsDuplicate_def
      split: backend_store.splits)

lemma degraded_decision:
  "degraded s \<Longrightarrow> decision U R cfg r x s = (if IsMethodExcluded U cfg (rq_Method r) then Excluded else Failed, s)"
  by (simp add: decision_def degraded_op)

lemma degraded_serve:
  assumes "degraded (st w)" and "FailOpen (h_cfg h)"
  shows "\<exists>rs w'. serve U R h qs w = Returned rs w' \<and> map fst rs = map fst qs \<and>
    (\<forall>(r, es) \<in> set rs. response_codes es = [200] \<and>
       Header ''X-Accel-Redirect'' (redirectPrefix h @ rq_RequestURI r) \<in> set es)"
  using assms(1)
proof (induction qs arbitrary: w)
  case (Cons q qs)
  obtain r x where q: "q = (r, x)" by (cases q)
  obtain w1 es where one: "Handle U R h r x w = Returned () w1" "trace w1 = trace w @ es" "st w1 = st w"
      "answers h r (if IsMethodExcluded U (h_cfg h) (rq_Method r) then Excluded else Failed) es"
    using Handle_decision [of U R h r x w] degraded_decision [OF Cons.prems, of U R "h_cfg h" r x] by auto
  then have "response_codes es = [200] \<and> Header ''X-Accel-Redirect'' (redirectPrefix h @ rq_RequestURI r) \<in> set es"
    using assms(2) by (simp add: answers_def split: if_splits)
  with Cons.IH [of w1] Cons.prems one q show ?case by auto
qed simp

text \<open>
  C11: fail-open at start-up. When Redis cannot be reached at start-up and \<open>fail_open\<close> is set,
  \<open>initStore\<close> succeeds, and from then on every request of any sequence, with or without the
  local cache, is answered with 200 and the redirect to its own URI.
\<close>

theorem degraded_mode_allows_all:
  assumes "NewRedis R cfg now = Inl err" and "FailOpen cfg" and "h_cfg h = cfg"
  shows "\<exists>b c ev. initStore R cfg now = Inr (b, c, ev) \<and>
    (\<exists>rs w'. serve U R h qs \<lparr>st = fst (wrapStore cfg b c), pool = p, trace = t\<rparr> = Returned rs w' \<and>
      map fst rs = map fst qs \<and>
      (\<forall>(r, es) \<in> set rs. response_codes es = [200] \<and>
         Header ''X-Accel-Redirect'' (redirectPrefix h @ rq_RequestURI r) \<in> set es))"
proof -
  let ?b = "MemoryBackend (NewMemory\<lparr>Err := Some ErrUnavailable\<rparr>)"
  have "initStore R cfg now = Inr (?b, CloseNothing,
      [Log WarnLevel [ErrField err, Str ''redis_addr'' (RedisAddr cfg)]
         ''redis unavailable at startup; running fail-open (all requests allowed)''])"
    using assms(1,2) by (simp add: initStore_def)
  moreover have "degraded (fst (wrapStore cfg ?b CloseNothing))"
    by (simp add: wrapStore_def NewCached_def)
  ultimately show ?thesis
    using degraded_serve [of "\<lparr>st = fst (wrapStore cfg ?b CloseNothing), pool = p, trace = t\<rparr>" h U R qs] assms(2,3)
    by auto
qed

definition down_client :: "redis_server redis_client" where
  "down_client = server_client\<lparr>rc_NewClient := (\<lambda>_. \<lparr>rs_data = Map.empty, rs_up = False\<rparr>)\<rparr>"

theorem degraded_mode_allows_all_witness:
  "\<exists>b c ev. initStore down_client default_config 0 = Inr (b, c, ev) \<and>
    (\<exists>es w'. serve (go_unicode sample_golib) down_client sample_handler [(sample_post [], sample_readings 0)]
        \<lparr>st = fst (wrapStore default_config b c), pool = [], trace = []\<rparr> = Returned [(sample_post [], es)] w' \<and>
      response_codes es = [200])"
proof -
  have "NewRedis down_client default_config 0 = Inl (Prefixed ''redis ping'' (OtherErr ''connection refused''))"
    by (simp add: NewRedis_def down_client_def server_client_def)
  from degraded_mode_allows_all [OF this, of sample_handler "go_unicode sample_golib"
      "[(sample_post [], sample_readings 0)]" "[]" "[]"]
  show ?thesis by (fastforce simp: default_config_def sample_handler_def NewXAccelDedup_def)
qed

section \<open>Start and stop\<close>

text \<open>Which implementation a store is: behind the cache or not, and Redis or memory.\<close>

fun on_redis :: "'r backend_store \<Rightarrow> bool" where
  "on_redis (RedisBackend s) \<longleftrightarrow> True"
| "on_redis (MemoryBackend m) \<longleftrightarrow> False"

fun shape :: "'r store \<Rightarrow> bool \<times> bool" where
  "shape (Bare b) = (False, on_redis b)"
| "shape (WithCache c) = (True, on_redis (backend c))"

lemma backend_shape:
  "on_redis (snd (backend_IsDuplicate R b ctx k d t)) = on_redis b"
  "on_redis (snd (backend_Ping R b ctx)) = on_redis b"
  by (cases b; simp split: prod.split)+

lemma store_op_shape: "shape (snd (store_op R s ctx k d x)) = shape s"
proof (cases s)
  case (WithCache c)
  obtain r c' where op: "cached_op (backend_IsDuplicate R) c ctx k d x = (r, c')" by fastforce
  from cached_op_backend [OF op] have "on_redis (backend c') = on_redis (backend c)"
    using backend_shape(1) [of R "backend c" ctx k d "rd_store x"] by auto
  with WithCache op show ?thesis by (simp add: store_op_simps)
qed (simp add: store_op_simps backend_shape)

lemma Store_Ping_shape: "shape (snd (Store_Ping R s ctx)) = shape s"
proof (cases s)
  case (Bare b)
  then show ?thesis using backend_shape(2) [of R b ctx] by (cases "backend_Ping R b ctx") simp
next
  case (WithCache c)
  then show ?thesis
    using backend_shape(2) [of R "backend c" ctx]
    by (cases "backend_Ping R (backend c) ctx") (simp add: CachedStore_Ping_def)
qed

lemma serve_http_shape: "shape (st (final (serve_http U R G rt cfg x r w))) = shape (st w)"
proof -
  have "shape (st (final (Handle U R h r y w'))) = shape (st w')" for h y w'
  proof -
    have "shape (snd (decision U R (h_cfg h) r y (st w'))) = shape (st w')"
      using decision_store [of U R "h_cfg h" r y "st w'"] by (metis snd_conv store_op_shape)
    then show ?thesis using Handle_decision [of U R h r y w'] by auto
  qed
  moreover have "shape (st (final (Health_Handle R r w'))) = shape (st w')" for w'
    using Store_Ping_shape [of R "st w'" "rq_deadline r"]
    by (auto simp: Health_Handle_def Let_def split: prod.split option.split store.split)
  ultimately show ?thesis
    by (simp add: serve_http_def Let_def chain_store route_handler_def split: route_result.split)
qed

lemma serve_all_shape: "shape (st (snd (serve_all U R G rt cfg qs w))) = shape (st w)"
proof (induction qs arbitrary: w)
  case (Cons q qs)
  obtain r x where "q = (r, x)" by (cases q)
  with Cons.IH [of "final (serve_http U R G rt cfg x r w)"] serve_http_shape [of U R G rt cfg x r w]
  show ?case by (simp add: Let_def case_prod_beta)
qed simp

lemma finish_store [simp]: "st (snd (finish E cfg w)) = st w"
  by (simp add: finish_def Let_def split: option.split wakeup.split)

lemma closeStore_closes:
  assumes "c = CloseNothing \<Longrightarrow> shape (st w) = (False, False)"
  shows "st (closeStore R c w) = snd (Store_Close R (st w))"
proof (cases c)
  case CloseNothing
  with assms obtain b where "st w = Bare b" "\<not> on_redis b" by (cases "st w") auto
  then obtain m where "st w = Bare (MemoryBackend m)" by (cases b) auto
  with CloseNothing show ?thesis by (simp add: Memory_Close_def)
qed (simp_all add: Let_def split: prod.split option.split)

text \<open>
  C28: the store is closed on every way out. Whenever \<open>run\<close> got past start-up, then however it
  ends (an error of the listener, a failed or a clean shutdown), the store it leaves is the one the
  last request left, closed; with the local cache on this stops the sweeper, and the Redis client is
  closed with it. The log file is closed last.
\<close>

theorem run_closes_store:
  assumes "run L V R G rt E qs = (err, ts, Some w)"
  shows "\<exists>cfg b c ev t. Load L V [] = Inr cfg \<and> initStore R cfg (re_now E) = Inr (b, c, ev) \<and>
    st w = snd (Store_Close R (st (snd (serve_all (go_unicode L) R G rt cfg qs
      \<lparr>st = fst (wrapStore cfg b c), pool = [], trace = t\<rparr>)))) \<and>
    (case st w of WithCache cs \<Rightarrow> LocalCacheEnabled cfg \<and> \<not> sweeping cs | Bare b \<Rightarrow> \<not> LocalCacheEnabled cfg) \<and>
    last (trace w) = CloseLog"
proof -
  from assms obtain cfg where cfg: "Load L V [] = Inr cfg" by (auto simp: run_def split: sum.splits)
  with assms have dir: "re_MkdirAll E (filepath_Dir (LogFile cfg)) = None"
    by (auto simp: run_def Let_def split: option.splits)
  with assms cfg obtain b c ev where ini: "initStore R cfg (re_now E) = Inr (b, c, ev)"
    by (auto simp: run_def Let_def split: sum.splits)
  obtain s1 c1 ev1 where wrap: "wrapStore cfg b c = (s1, c1, ev1)" by (metis surj_pair)
  obtain t where t: "\<exists>err ts. run L V R G rt E qs = (err, ts, Some (emit [CloseLog] (closeStore R c1 (snd (finish E cfg
      (snd (serve_all (go_unicode L) R G rt cfg qs \<lparr>st = s1, pool = [], trace = t\<rparr>)))))))"
    using cfg dir ini wrap by (auto simp: run_def Let_def case_prod_beta)
  let ?w0 = "\<lparr>st = s1, pool = [], trace = t\<rparr>"
  let ?w1 = "snd (serve_all (go_unicode L) R G rt cfg qs ?w0)"
  have w: "w = emit [CloseLog] (closeStore R c1 (snd (finish E cfg ?w1)))"
    using assms t by auto
  have shape: "shape (st ?w1) = shape s1" using serve_all_shape [of "go_unicode L" R G rt cfg qs ?w0] by simp
  have "c1 = CloseNothing \<Longrightarrow> shape s1 = (False, False)"
    using ini wrap by (auto simp: initStore_def wrapStore_def split: sum.splits if_splits)
  then have st: "st w = snd (Store_Close R (st ?w1))"
    using closeStore_closes [of c1 "snd (finish E cfg ?w1)" R] shape unfolding w by simp
  have "fst (shape (st ?w1)) = LocalCacheEnabled cfg" using wrap shape by (auto simp: wrapStore_def split: if_splits)
  then have "case st w of WithCache cs \<Rightarrow> LocalCacheEnabled cfg \<and> \<not> sweeping cs | Bare b \<Rightarrow> \<not> LocalCacheEnabled cfg"
    unfolding st by (cases "st ?w1") (simp_all add: CachedStore_Close_def Let_def split: prod.split)
  moreover have "last (trace w) = CloseLog" by (simp add: w)
  ultimately show ?thesis using cfg ini wrap st by (metis fst_conv)
qed

theorem run_closes_store_witness:
  "\<exists>ts w cs. run sample_golib viper_no_file server_client sample_gin sample_router
      \<lparr>re_now = 0, re_ParseLevel = (\<lambda>_. Inr 1), re_MkdirAll = (\<lambda>_. None), re_oldGC = 100,
       re_wakeup = Signalled ''terminated'', re_shutdown = None\<rparr> [] = (None, ts, Some w) \<and>
     st w = WithCache cs \<and> \<not> sweeping cs"
proof -
  let ?E = "\<lparr>re_now = 0, re_ParseLevel = (\<lambda>_. Inr 1), re_MkdirAll = (\<lambda>_. None), re_oldGC = 100,
    re_wakeup = Signalled ''terminated'', re_shutdown = None\<rparr>"
  let ?b = "RedisBackend \<lparr>client = \<lparr>rs_data = Map.empty, rs_up = True\<rparr>\<rparr>"
  have ini: "initStore server_client default_config 0 = Inr (?b, CloseRedis, [])"
    by (simp add: initStore_def NewRedis_def server_client_def)
  obtain ts w where run: "run sample_golib viper_no_file server_client sample_gin sample_router ?E [] = (None, ts, Some w)"
    by (simp add: run_def Load_no_file ini finish_def Let_def case_prod_beta)
  have "LocalCacheEnabled cfg" if "Load sample_golib viper_no_file [] = Inr cfg" for cfg
    using that by (auto simp: Load_no_file default_config_def)
  with run_closes_store [OF run] have "case st w of WithCache cs \<Rightarrow> \<not> sweeping cs | Bare b \<Rightarrow> False"
    by (auto split: store.splits)
  then obtain cs where "st w = WithCache cs" "\<not> sweeping cs" by (cases "st w") auto
  with run show ?thesis by blast
qed

lemma main_exit_zero: "main_exit err = 0 \<longleftrightarrow> err = None"
  by (simp add: main_exit_def split: option.split)

text \<open>
  C37: the exit status. The process ends with status 0 exactly when the configuration loads, the log
  directory can be made, Redis is reachable or \<open>fail_open\<close> is set, the listener did not fail (being closed is not a
  failure), and the graceful shutdown finished in time.
\<close>

theorem exit_status_zero_iff:
  fixes R :: "'r redis_client"
  shows "main_exit (fst (run L V R G rt E qs)) = 0 \<longleftrightarrow>
    (\<exists>cfg. Load L V [] = Inr cfg \<and> re_MkdirAll E (filepath_Dir (LogFile cfg)) = None \<and>
       (FailOpen cfg \<or> (\<exists>s. NewRedis R cfg (re_now E) = Inr s))) \<and>
    (case re_wakeup E of
       ServeReturned (Some e) \<Rightarrow> errors_Is e ErrServerClosed
     | _ \<Rightarrow> True) \<and> re_shutdown E = None"
proof (cases "Load L V []")
  case (Inl e)
  then show ?thesis by (simp add: run_def main_exit_def)
next
  case (Inr cfg)
  have fin: "fst (finish E cfg w) = None \<longleftrightarrow>
      (case re_wakeup E of ServeReturned (Some e) \<Rightarrow> errors_Is e ErrServerClosed | _ \<Rightarrow> True) \<and> re_shutdown E = None"
    for w :: "'r world"
    by (auto simp: finish_def server_error_def Let_def split: option.splits wakeup.splits)
  consider (dir) e where "re_MkdirAll E (filepath_Dir (LogFile cfg)) = Some e"
    | (down) e where "re_MkdirAll E (filepath_Dir (LogFile cfg)) = None" "initStore R cfg (re_now E) = Inl e"
    | (up) r where "re_MkdirAll E (filepath_Dir (LogFile cfg)) = None" "initStore R cfg (re_now E) = Inr r"
    by (cases "re_MkdirAll E (filepath_Dir (LogFile cfg))"; cases "initStore R cfg (re_now E)") auto
  then show ?thesis
  proof cases
    case dir
    with Inr show ?thesis by (simp add: run_def main_exit_def Let_def)
  next
    case down
    with Inr show ?thesis
      by (auto simp: run_def main_exit_def initStore_def Let_def split: sum.splits if_splits)
  next
    case init: (up r)
    then have started: "FailOpen cfg \<or> (\<exists>s. NewRedis R cfg (re_now E) = Inr s)"
      by (auto simp: initStore_def split: sum.splits if_splits)
    have "\<exists>w :: 'r world. fst (run L V R G rt E qs) = fst (finish E cfg w)"
      using Inr init by (cases r) (auto simp: run_def Let_def case_prod_beta)
    then obtain w :: "'r world" where "fst (run L V R G rt E qs) = fst (finish E cfg w)" ..
    then have "main_exit (fst (run L V R G rt E qs)) = 0 \<longleftrightarrow> fst (finish E cfg w) = None"
      by (simp only: main_exit_zero)
    moreover have "\<exists>cfg. Load L V [] = Inr cfg \<and> re_MkdirAll E (filepath_Dir (LogFile cfg)) = None \<and>
        (FailOpen cfg \<or> (\<exists>s. NewRedis R cfg (re_now E) = Inr s))"
      using Inr init(1) started by simp
    ultimately show ?thesis unfolding fin [of w] by (simp only: simp_thms)
  qed
qed

lemma sint_mult_exact: "representable (sint a * sint b) \<Longrightarrow> sint (a * b) = sint a * sint b" for a b :: duration
  using unix_ns_representable [of "sint a * sint b"] by (simp add: UnixNano_def)



end
