(* ===== verification/Concurrency.thy ===== *)
theory Concurrency
  imports Store_Interface
begin

text \<open>
  Many goroutines in several processes. Each process has its own local cache and sweeper; all share
  one backend. A goroutine runs \<open>CachedStore.IsDuplicate\<close> of
  \<open>internal/store/cached_store.go\<close>, cut at every point where another one can come between: the
  clock readings, the critical sections of \<open>internal/store/localcache.go\<close> and the call to the
  backend, which is atomic (one Redis command, or the mutex of the in-memory store). The sweeper
  locks one shard at a time. The clock never goes back.
\<close>

section \<open>The transition system\<close>

datatype pc =
    Begin
  | Look time
  | Evict
  | Ask
  | Fill bool
  | Write bool time
  | Done dup_result

record thread =
  th_proc :: nat
  th_ctx :: ctx
  th_key :: string
  th_pc :: pc

text \<open>
  The sweeper of a process, while it sweeps, has the clock reading it started with and the number
  of the next shard. \<open>grants\<close> is a history variable: the backend's decisions to allow a key, with their times,
  latest first.
\<close>

record 's conc =
  clock :: time
  shared :: 's
  caches :: "nat \<Rightarrow> LocalCache"
  threads :: "nat \<Rightarrow> thread option"
  sweeper :: "nat \<Rightarrow> (time \<times> nat) option"
  grants :: "(time \<times> string) list"

definition goto :: "nat \<Rightarrow> thread \<Rightarrow> pc \<Rightarrow> 's conc \<Rightarrow> 's conc" where
  "goto i th p s = s\<lparr>threads := (threads s)(i \<mapsto> th\<lparr>th_pc := p\<rparr>)\<rparr>"

definition set_cache :: "nat \<Rightarrow> LocalCache \<Rightarrow> 's conc \<Rightarrow> 's conc" where
  "set_cache p c s = s\<lparr>caches := (caches s)(p := c)\<rparr>"

definition after_look :: "int64 option \<Rightarrow> time \<Rightarrow> pc" where
  "after_look entry now =
     (case entry of
        None \<Rightarrow> Ask
      | Some expiry \<Rightarrow> if sint expiry \<le> unix_ns now then Evict else Done duplicate)"

definition after_ask :: "dup_result \<Rightarrow> pc" where
  "after_ask r = (case r of (b, Some e) \<Rightarrow> Done (b, Some e) | (b, None) \<Rightarrow> Fill b)"

definition sweep_shard :: "LocalCache \<Rightarrow> nat \<Rightarrow> time \<Rightarrow> LocalCache" where
  "sweep_shard c j now =
     c\<lparr>shards := (shards c)[j := \<lparr>sh_data = filter (\<lambda>(k, exp). \<not> sint exp \<le> unix_ns now) (sh_data (shards c ! j))\<rparr>]\<rparr>"

text \<open>The time to live is the deduplication window, the same for every call of the service.\<close>

inductive step :: "('s, time) is_dup_op \<Rightarrow> duration \<Rightarrow> 's conc \<Rightarrow> 's conc \<Rightarrow> bool" for f ttl where
  tick: "clock s \<le> t \<Longrightarrow> step f ttl s (s\<lparr>clock := t\<rparr>)"
| spawn: "threads s i = None \<Longrightarrow>
    step f ttl s (s\<lparr>threads := (threads s)(i \<mapsto> \<lparr>th_proc = p, th_ctx = c, th_key = k, th_pc = Begin\<rparr>)\<rparr>)"
| read_clock: "threads s i = Some th \<Longrightarrow> th_pc th = Begin \<Longrightarrow> step f ttl s (goto i th (Look (clock s)) s)"
| look: "threads s i = Some th \<Longrightarrow> th_pc th = Look now \<Longrightarrow>
    step f ttl s (goto i th (after_look (Contains_read (caches s (th_proc th)) (th_key th)) now) s)"
| evict: "threads s i = Some th \<Longrightarrow> th_pc th = Evict \<Longrightarrow>
    step f ttl s (goto i th Ask
      (set_cache (th_proc th) (Contains_evict (caches s (th_proc th)) (th_key th) (clock s)) s))"
| ask: "threads s i = Some th \<Longrightarrow> th_pc th = Ask \<Longrightarrow>
    f (shared s) (th_ctx th) (th_key th) ttl (clock s) = (r, b') \<Longrightarrow>
    step f ttl s (goto i th (after_ask r)
      (s\<lparr>shared := b', grants := (if r = allowed then (clock s, th_key th) # grants s else grants s)\<rparr>))"
| fill: "threads s i = Some th \<Longrightarrow> th_pc th = Fill b \<Longrightarrow> step f ttl s (goto i th (Write b (clock s)) s)"
| assign: "threads s i = Some th \<Longrightarrow> th_pc th = Write b t \<Longrightarrow>
    step f ttl s (goto i th (Done (b, None))
      (set_cache (th_proc th) (Set (caches s (th_proc th)) (th_key th) ttl t) s))"
| sweep_begin: "sweeper s p = None \<Longrightarrow> step f ttl s (s\<lparr>sweeper := (sweeper s)(p \<mapsto> (clock s, 0))\<rparr>)"
| sweep_step: "sweeper s p = Some (now, j) \<Longrightarrow> j < numShards \<Longrightarrow>
    step f ttl s (set_cache p (sweep_shard (caches s p) j now) (s\<lparr>sweeper := (sweeper s)(p \<mapsto> (now, Suc j))\<rparr>))"
| sweep_end: "sweeper s p = Some (now, numShards) \<Longrightarrow> step f ttl s (s\<lparr>sweeper := (sweeper s)(p := None)\<rparr>)"

inductive_cases stepE: "step f ttl s s'"

inductive reachable :: "('s, time) is_dup_op \<Rightarrow> duration \<Rightarrow> 's conc \<Rightarrow> 's conc \<Rightarrow> bool" for f ttl s0 where
  start: "reachable f ttl s0 s0"
| next_step: "reachable f ttl s0 s \<Longrightarrow> step f ttl s s' \<Longrightarrow> reachable f ttl s0 s'"

definition initial :: "time \<Rightarrow> 's \<Rightarrow> 's conc" where
  "initial t b = \<lparr>clock = t, shared = b, caches = (\<lambda>_. NewLocalCache), threads = Map.empty, sweeper = Map.empty, grants = []\<rparr>"

lemma goto_simps [simp]:
  "clock (goto i th p s) = clock s" "shared (goto i th p s) = shared s" "caches (goto i th p s) = caches s"
  "grants (goto i th p s) = grants s" "sweeper (goto i th p s) = sweeper s" "threads (goto i th p s) = (threads s)(i \<mapsto> th\<lparr>th_pc := p\<rparr>)"
  by (simp_all add: goto_def)

lemma set_cache_simps [simp]:
  "clock (set_cache p c s) = clock s" "shared (set_cache p c s) = shared s"
  "caches (set_cache p c s) = (caches s)(p := c)" "grants (set_cache p c s) = grants s"
  "threads (set_cache p c s) = threads s" "sweeper (set_cache p c s) = sweeper s"
  by (simp_all add: set_cache_def)

section \<open>The caches\<close>

lemma cache_ok_sweep_shard [cache_laws]: "cache_ok c \<Longrightarrow> cache_ok (sweep_shard c j now)"
  by (cases "j < length (shards c)") (auto simp: cache_ok_def sweep_shard_def alist_distinct nth_list_update)

lemma lookup_sweep_shard:
  assumes "cache_ok c"
  shows "cache_lookup (sweep_shard c j now) k =
    (case cache_lookup c k of
       Some e \<Rightarrow> if unat (shardIndex k) = j \<and> sint e \<le> unix_ns now then None else Some e
     | None \<Rightarrow> None)"
proof (cases "unat (shardIndex k) = j")
  case True
  with assms shardIndex_less_length [OF assms, of k] distinct_shard_of [OF assms, of k] show ?thesis
    by (auto simp: cache_lookup_def sweep_shard_def shard_of_def map_of_filter_distinct split: option.split)
qed (simp add: cache_lookup_def sweep_shard_def shard_of_def split: option.split)

text \<open>Sweeping shard after shard with one clock reading is the method \<open>sweep\<close>.\<close>

lemma sweep_by_shards:
  assumes "length (shards c) = numShards"
  shows "foldl (\<lambda>c j. sweep_shard c j now) c [0..<numShards] = sweep c now"
proof -
  let ?f = "\<lambda>sh. \<lparr>sh_data = filter (\<lambda>(k, exp). \<not> sint exp \<le> unix_ns now) (sh_data sh)\<rparr>"
  have "n \<le> numShards \<Longrightarrow> foldl (\<lambda>c j. sweep_shard c j now) c [0..<n] =
      c\<lparr>shards := map ?f (take n (shards c)) @ drop n (shards c)\<rparr>" for n
  proof (induction n)
    case (Suc n)
    then have "n < length (shards c)" using assms by simp
    with Suc show ?case
      by (simp add: sweep_shard_def list_update_append take_Suc_conv_app_nth Cons_nth_drop_Suc [symmetric]
          nth_append)
  qed simp
  from this [of numShards] assms show ?thesis by (simp add: sweep_def)
qed

lemma step_cache_ok:
  assumes "step f ttl s s'" and "\<forall>p. cache_ok (caches s p)"
  shows "\<forall>p. cache_ok (caches s' p)"
  using assms by (elim stepE) (simp_all add: cache_laws)

lemma reachable_cache_ok: "reachable f ttl (initial t b) s \<Longrightarrow> \<forall>p. cache_ok (caches s p)"
  by (induction rule: reachable.induct) (simp_all add: initial_def cache_ok_New step_cache_ok)

section \<open>Grants\<close>

text \<open>
  A key the backend allowed stays held, for its whole window, in every state that follows; and two
  grants of one key are at least a window apart.
\<close>

definition grants_hold :: "('s \<Rightarrow> string \<Rightarrow> time \<Rightarrow> bool) \<Rightarrow> duration \<Rightarrow> 's conc \<Rightarrow> bool" where
  "grants_hold held ttl s \<longleftrightarrow>
     (\<forall>(t, k) \<in> set (grants s). t \<le> clock s \<and> (\<forall>u. clock s \<le> u \<longrightarrow> u < t + sint ttl \<longrightarrow> held (shared s) k u))"

fun spaced :: "duration \<Rightarrow> (time \<times> string) list \<Rightarrow> bool" where
  "spaced ttl [] \<longleftrightarrow> True"
| "spaced ttl ((t, k) # gs) \<longleftrightarrow> (\<forall>(t', k') \<in> set gs. k' = k \<longrightarrow> t' + sint ttl \<le> t) \<and> spaced ttl gs"

context cached_backend
begin

lemma ask_grants:
  assumes call: "is_dup b c k ttl t = (r, b')" and ok: "\<And>t. ok ttl t"
    and hold: "\<forall>(t', k') \<in> set gs. t' \<le> t \<and> (\<forall>u. t \<le> u \<longrightarrow> u < t' + sint ttl \<longrightarrow> held b k' u)"
    and "spaced ttl gs"
    and gs': "gs' = (if r = allowed then (t, k) # gs else gs)"
  shows "(\<forall>(t', k') \<in> set gs'. t' \<le> t \<and> (\<forall>u. t \<le> u \<longrightarrow> u < t' + sint ttl \<longrightarrow> held b' k' u)) \<and> spaced ttl gs'"
proof -
  have kept: "held b k' u \<Longrightarrow> t \<le> u \<Longrightarrow> held b' k' u" for k' u
    using held_stays [OF call ok] by simp
  show ?thesis
  proof (cases "r = allowed")
    case True
    have "held b' k u" if "t \<le> u" "u < t + sint ttl" for u
      using new_is_held [OF _ ok] call True that by simp
    moreover have "t' + sint ttl \<le> t" if "(t', k) \<in> set gs" for t'
    proof (rule ccontr)
      assume "\<not> t' + sint ttl \<le> t"
      with hold that have "held b k t" by fastforce
      with new_was_free [OF _ ok] call True show False by blast
    qed
    ultimately show ?thesis using True hold kept assms(4) gs' by fastforce
  next
    case False
    with hold kept assms(4) gs' show ?thesis by fastforce
  qed
qed

lemma step_grants:
  assumes "step is_dup ttl s s'" and ok: "\<And>t. ok ttl t" and "grants_hold held ttl s" and "spaced ttl (grants s)"
  shows "grants_hold held ttl s' \<and> spaced ttl (grants s')"
  using assms(1)
proof cases
  case (ask i th r b')
  from ask_grants [OF ask(4) ok, of "grants s"] assms(3,4) show ?thesis
    unfolding ask(1) grants_hold_def by simp
qed (use assms(3,4) in \<open>fastforce simp: grants_hold_def\<close>)+

lemma reachable_grants:
  assumes "reachable is_dup ttl (initial t0 b) s" and ok: "\<And>t. ok ttl t"
  shows "grants_hold held ttl s \<and> spaced ttl (grants s)"
  using assms(1)
proof (induction rule: reachable.induct)
  case start
  show ?case by (simp add: grants_hold_def initial_def)
next
  case (next_step s s')
  then show ?case using step_grants [OF _ ok] by blast
qed

end

lemma spaced_nth:
  "spaced ttl gs \<Longrightarrow> i < j \<Longrightarrow> j < length gs \<Longrightarrow> snd (gs ! i) = snd (gs ! j) \<Longrightarrow>
   fst (gs ! j) + sint ttl \<le> fst (gs ! i)"
proof (induction ttl gs arbitrary: i j rule: spaced.induct)
  case (2 ttl t k gs)
  show ?case
  proof (cases i)
    case 0
    with 2(3) obtain j' where j: "j = Suc j'" by (cases j) auto
    with 2(4) have "gs ! j' \<in> set gs" by simp
    with 2(2,5) 0 j show ?thesis by (cases "gs ! j'") fastforce
  next
    case (Suc i')
    with 2 show ?thesis by (cases j) auto
  qed
qed simp

section \<open>Goroutines that were told to go ahead\<close>

fun granted :: "pc \<Rightarrow> bool" where
  "granted (Fill b) \<longleftrightarrow> \<not> b"
| "granted (Write b t) \<longleftrightarrow> \<not> b"
| "granted (Done r) \<longleftrightarrow> r = allowed"
| "granted _ \<longleftrightarrow> False"

definition granted_threads :: "'s conc \<Rightarrow> string \<Rightarrow> nat set" where
  "granted_threads s k = {i. \<exists>th. threads s i = Some th \<and> th_key th = k \<and> granted (th_pc th)}"

definition grant_count :: "'s conc \<Rightarrow> string \<Rightarrow> nat" where
  "grant_count s k = length (filter (\<lambda>g. snd g = k) (grants s))"

lemma granted_after_look [simp]: "\<not> granted (after_look e now)"
  by (simp add: after_look_def split: option.split)

lemma granted_after_ask [simp]: "granted (after_ask r) \<longleftrightarrow> r = allowed"
  by (cases r) (auto simp: after_ask_def split: option.split)

lemma granted_threads_goto:
  assumes "threads s i = Some th"
  shows "granted_threads (goto i th p s) k =
    (if th_key th = k \<and> granted p then insert i (granted_threads s k) else granted_threads s k - {i})"
  using assms by (auto simp: granted_threads_def)

lemma granted_threads_simps [simp]:
  "granted_threads (set_cache p c s) k = granted_threads s k" "granted_threads (s\<lparr>clock := t\<rparr>) k = granted_threads s k"
  "granted_threads (s\<lparr>shared := b, grants := gs\<rparr>) k = granted_threads s k"
  "granted_threads (s\<lparr>sweeper := sw\<rparr>) k = granted_threads s k"
  by (simp_all add: granted_threads_def)

lemma granted_threads_keep:
  assumes "threads s i = Some th" and "granted p = granted (th_pc th)"
  shows "granted_threads (goto i th p s) k = granted_threads s k"
  using assms by (auto simp: granted_threads_goto granted_threads_def)

lemma step_granted:
  assumes "step f ttl s s'" and "finite (granted_threads s k)" and "card (granted_threads s k) = grant_count s k"
  shows "finite (granted_threads s' k) \<and> card (granted_threads s' k) = grant_count s' k"
  using assms(1)
proof cases
  case (spawn i p c k')
  then have "granted_threads s' k = granted_threads s k" by (auto simp: granted_threads_def)
  with spawn(1) assms(2,3) show ?thesis by (simp add: grant_count_def)
next
  case (ask i th r b')
  let ?s = "s\<lparr>shared := b', grants := (if r = allowed then (clock s, th_key th) # grants s else grants s)\<rparr>"
  have th: "threads ?s i = Some th" using ask(2) by simp
  have set: "granted_threads ?s k = granted_threads s k" by simp
  have new: "i \<notin> granted_threads s k" using ask(2,3) by (simp add: granted_threads_def)
  show ?thesis
  proof (cases "r = allowed \<and> th_key th = k")
    case True
    then have "granted_threads s' k = insert i (granted_threads s k)"
      unfolding ask(1) granted_threads_goto [OF th] set by simp
    with new assms(2,3) True ask(1) show ?thesis by (simp add: grant_count_def)
  next
    case False
    then have "granted_threads s' k = granted_threads s k"
      using new unfolding ask(1) granted_threads_goto [OF th] set by auto
    with assms(2,3) False ask(1) show ?thesis by (auto simp: grant_count_def)
  qed
qed (use assms(2,3) in \<open>simp_all add: granted_threads_keep grant_count_def\<close>)

lemma reachable_granted:
  "reachable f ttl (initial t0 b) s \<Longrightarrow>
   finite (granted_threads s k) \<and> card (granted_threads s k) = grant_count s k"
proof (induction rule: reachable.induct)
  case start
  show ?case by (simp add: granted_threads_def grant_count_def initial_def)
next
  case (next_step s s')
  then show ?case using step_granted by blast
qed

lemma reachable_times:
  "reachable f ttl (initial t0 b) s \<Longrightarrow> t0 \<le> clock s \<and> (\<forall>g \<in> set (grants s). t0 \<le> fst g) \<and>
     (\<forall>p now j. sweeper s p = Some (now, j) \<longrightarrow> t0 \<le> now \<and> now \<le> clock s)"
proof (induction rule: reachable.induct)
  case (next_step s s')
  from next_step(2) next_step(3) show ?case by cases (fastforce split: if_splits)+
qed (simp add: initial_def)

lemma spaced_window:
  assumes "spaced ttl gs" and "\<forall>g \<in> set gs. t0 \<le> fst g \<and> fst g < t0 + sint ttl"
  shows "length (filter (\<lambda>g. snd g = k) gs) \<le> 1"
  using assms
proof (induction ttl gs rule: spaced.induct)
  case (2 ttl t k' gs)
  have "filter (\<lambda>g. snd g = k) gs = []" if "k' = k"
  proof (rule ccontr)
    assume "filter (\<lambda>g. snd g = k) gs \<noteq> []"
    then obtain t' where "(t', k) \<in> set gs" by (auto simp: filter_empty_conv)
    with 2(2,3) that show False by fastforce
  qed
  with 2 show ?case by auto
qed simp

section \<open>A goroutine that is not interrupted\<close>

definition now_readings :: "time \<Rightarrow> readings" where
  "now_readings t = \<lparr>rd_now = t, rd_evict = t, rd_store = t, rd_set = t\<rparr>"

lemma goto_goto [simp]: "goto i (th\<lparr>th_pc := p\<rparr>) q (goto i th p' s) = goto i th q s"
  by (simp add: goto_def)

lemma goto_set_cache_goto [simp]:
  "goto i (th\<lparr>th_pc := p\<rparr>) q (set_cache n c (goto i th p' s)) = goto i th q (set_cache n c s)"
  by (simp add: goto_def set_cache_def)

lemma set_cache_same [simp]: "set_cache p (caches s p) s = s"
  by (simp add: set_cache_def)

lemma reachable_look:
  assumes "threads s i = Some th" and "th_pc th = Begin"
  shows "reachable f ttl s (goto i th (after_look (Contains_read (caches s (th_proc th)) (th_key th)) (clock s)) s)"
proof -
  let ?s1 = "goto i th (Look (clock s)) s"
  have "reachable f ttl s ?s1" by (rule next_step [OF start read_clock [OF assms]])
  moreover have "step f ttl ?s1 (goto i (th\<lparr>th_pc := Look (clock s)\<rparr>)
      (after_look (Contains_read (caches ?s1 (th_proc (th\<lparr>th_pc := Look (clock s)\<rparr>))) (th_key (th\<lparr>th_pc := Look (clock s)\<rparr>)))
        (clock s)) ?s1)"
    by (rule look) simp_all
  ultimately show ?thesis by (auto dest: next_step)
qed

lemma reachable_miss:
  assumes "threads s i = Some th" and "th_pc th = Begin"
    and "Contains (caches s (th_proc th)) (th_key th) (clock s) (clock s) = (False, c1)"
  shows "reachable f ttl s (goto i th Ask (set_cache (th_proc th) c1 s))"
proof (cases "Contains_read (caches s (th_proc th)) (th_key th)")
  case None
  with reachable_look [OF assms(1,2), of f ttl] assms(3) show ?thesis
    by (auto simp: after_look_def Contains_def)
next
  case (Some e)
  with assms(3) have e: "sint e \<le> unix_ns (clock s)"
    and c1: "c1 = Contains_evict (caches s (th_proc th)) (th_key th) (clock s)"
    by (auto simp: Contains_def split: if_splits)
  let ?s2 = "goto i th Evict s"
  have "reachable f ttl s ?s2"
    using reachable_look [OF assms(1,2), of f ttl] Some e by (simp add: after_look_def)
  moreover have "step f ttl ?s2 (goto i (th\<lparr>th_pc := Evict\<rparr>) Ask (set_cache (th_proc (th\<lparr>th_pc := Evict\<rparr>))
      (Contains_evict (caches ?s2 (th_proc (th\<lparr>th_pc := Evict\<rparr>))) (th_key (th\<lparr>th_pc := Evict\<rparr>)) (clock ?s2)) ?s2))"
    by (rule evict) simp_all
  ultimately show ?thesis using c1 by (auto dest: next_step)
qed

lemma reachable_ask:
  assumes "threads s i = Some th" and "th_pc th = Begin"
    and "Contains (caches s (th_proc th)) (th_key th) (clock s) (clock s) = (False, c1)"
    and "f (shared s) (th_ctx th) (th_key th) ttl (clock s) = (r, b')"
  shows "reachable f ttl s (goto i th (after_ask r) ((set_cache (th_proc th) c1 s)
    \<lparr>shared := b', grants := (if r = allowed then (clock s, th_key th) # grants s else grants s)\<rparr>))"
proof -
  let ?s = "goto i th Ask (set_cache (th_proc th) c1 s)"
  let ?th = "th\<lparr>th_pc := Ask\<rparr>"
  have "step f ttl ?s (goto i ?th (after_ask r)
      (?s\<lparr>shared := b', grants := (if r = allowed then (clock ?s, th_key ?th) # grants ?s else grants ?s)\<rparr>))"
    by (rule ask) (simp_all add: assms(4))
  from next_step [OF reachable_miss [OF assms(1-3)] this] show ?thesis
    by (cases "r = allowed") (simp_all add: goto_def)
qed

lemma reachable_fill:
  assumes "threads s i = Some (th\<lparr>th_pc := Fill b\<rparr>)"
  shows "reachable f ttl s (goto i th (Done (b, None))
    (set_cache (th_proc th) (Set (caches s (th_proc th)) (th_key th) ttl (clock s)) s))"
proof -
  let ?s1 = "goto i th (Write b (clock s)) s" and ?th = "th\<lparr>th_pc := Write b (clock s)\<rparr>"
  have "step f ttl s (goto i (th\<lparr>th_pc := Fill b\<rparr>) (Write b (clock s)) s)"
    by (rule fill [OF assms]) simp
  then have "reachable f ttl s ?s1" by (simp add: goto_def next_step [OF start])
  moreover have "step f ttl ?s1 (goto i ?th (Done (b, None))
      (set_cache (th_proc ?th) (Set (caches ?s1 (th_proc ?th)) (th_key ?th) ttl (clock s)) ?s1))"
    by (rule assign) simp_all
  ultimately show ?thesis by (auto dest: next_step)
qed

lemma reachable_trans: "reachable f ttl s' s'' \<Longrightarrow> reachable f ttl s s' \<Longrightarrow> reachable f ttl s s''"
  by (induction rule: reachable.induct) (auto intro: next_step)

lemma goroutine_alone:
  assumes th: "threads s i = Some th" "th_pc th = Begin"
    and call: "cached_op f \<lparr>backend = shared s, cache = caches s (th_proc th), sweeping = True\<rparr> (th_ctx th) (th_key th) ttl
        (now_readings (clock s)) = (r, cs)"
  shows "\<exists>s'. reachable f ttl s s' \<and> threads s' = (threads s)(i \<mapsto> th\<lparr>th_pc := Done r\<rparr>) \<and>
    shared s' = backend cs \<and> caches s' = (caches s)(th_proc th := cache cs) \<and> clock s' = clock s"
  using call
proof (cases rule: cached_op_cases)
  case hit
  let ?c = "caches s (th_proc th)"
  obtain e where e: "Contains_read ?c (th_key th) = Some e" "\<not> sint e \<le> unix_ns (clock s)" "cache cs = ?c"
    using hit(1,4) by (auto simp: Contains_def now_readings_def split: option.splits if_splits)
  then show ?thesis
    using reachable_look [OF th, of f ttl] hit(2,3)
    by (intro exI [of _ "goto i th (Done duplicate) s"]) (simp add: after_look_def)
next
  case (err b e)
  obtain c1 where c1: "Contains (caches s (th_proc th)) (th_key th) (clock s) (clock s) = (False, c1)" "cache cs = c1"
    using err(1,4) by (cases "Contains (caches s (th_proc th)) (th_key th) (clock s) (clock s)") (simp add: now_readings_def)
  from err(2) have call: "f (shared s) (th_ctx th) (th_key th) ttl (clock s) = ((b, Some e), backend cs)"
    by (simp add: now_readings_def)
  show ?thesis
    using reachable_ask [where f = f and ttl = ttl, OF th c1(1) call] c1(2) err(3)
    by (intro exI) (auto simp: after_ask_def)
next
  case (miss b)
  obtain c1 where c1: "Contains (caches s (th_proc th)) (th_key th) (clock s) (clock s) = (False, c1)"
      "cache cs = Set c1 (th_key th) ttl (clock s)"
    using miss(1,4) by (cases "Contains (caches s (th_proc th)) (th_key th) (clock s) (clock s)") (simp add: now_readings_def)
  from miss(2) have call: "f (shared s) (th_ctx th) (th_key th) ttl (clock s) = ((b, None), backend cs)"
    by (simp add: now_readings_def)
  note a = reachable_ask [where f = f and ttl = ttl, OF th c1(1) call]
  let ?s2 = "goto i th (Fill b) ((set_cache (th_proc th) c1 s)\<lparr>shared := backend cs,
      grants := (if (b, None) = allowed then (clock s, th_key th) # grants s else grants s)\<rparr>)"
  have "reachable f ttl s ?s2" using a by (simp add: after_ask_def)
  from reachable_trans [OF reachable_fill [where s = ?s2 and i = i and th = th and b = b and f = f and ttl = ttl] this] show ?thesis
    using c1(2) miss(3) by (intro exI) auto
qed

section \<open>Progress\<close>

text \<open>
  The steps a goroutine has left, at most: every step of its own brings it closer to its return, and
  no step of another goroutine, of a sweeper or of the clock touches it.
\<close>

fun pc_rank :: "pc \<Rightarrow> nat" where
  "pc_rank Begin = 6"
| "pc_rank (Look t) = 5"
| "pc_rank Evict = 4"
| "pc_rank Ask = 3"
| "pc_rank (Fill b) = 2"
| "pc_rank (Write b t) = 1"
| "pc_rank (Done r) = 0"

definition rank :: "nat \<Rightarrow> 's conc \<Rightarrow> nat" where
  "rank i s = (case threads s i of None \<Rightarrow> 7 | Some th \<Rightarrow> pc_rank (th_pc th))"

definition finished :: "nat \<Rightarrow> 's conc \<Rightarrow> bool" where
  "finished i s \<longleftrightarrow> (\<exists>th r. threads s i = Some th \<and> th_pc th = Done r)"

text \<open>The next step of a goroutine, if it has one.\<close>

definition move :: "('s, time) is_dup_op \<Rightarrow> duration \<Rightarrow> nat \<Rightarrow> 's conc \<Rightarrow> 's conc" where
  "move f ttl i s =
     (case threads s i of
        None \<Rightarrow> s
      | Some th \<Rightarrow>
          (case th_pc th of
             Begin \<Rightarrow> goto i th (Look (clock s)) s
           | Look now \<Rightarrow> goto i th (after_look (Contains_read (caches s (th_proc th)) (th_key th)) now) s
           | Evict \<Rightarrow>
               goto i th Ask (set_cache (th_proc th) (Contains_evict (caches s (th_proc th)) (th_key th) (clock s)) s)
           | Ask \<Rightarrow>
               (let (r, b') = f (shared s) (th_ctx th) (th_key th) ttl (clock s)
                in goto i th (after_ask r)
                     (s\<lparr>shared := b', grants := (if r = allowed then (clock s, th_key th) # grants s else grants s)\<rparr>))
           | Fill b \<Rightarrow> goto i th (Write b (clock s)) s
           | Write b t \<Rightarrow>
               goto i th (Done (b, None)) (set_cache (th_proc th) (Set (caches s (th_proc th)) (th_key th) ttl t) s)
           | Done r \<Rightarrow> s))"

lemma pc_rank_after [simp]: "pc_rank (after_look e t) < 5" "pc_rank (after_ask r) < 3"
  by (auto simp: after_look_def after_ask_def split: option.split prod.split)

lemma stutter: "step f ttl s s"
  using tick [of s "clock s" f ttl] by simp

lemma move_step: "step f ttl s (move f ttl i s)"
proof (cases "threads s i")
  case (Some th)
  note moves = step.read_clock [OF Some] step.look [OF Some] step.evict [OF Some] step.ask [OF Some] step.fill [OF Some]
    step.assign [OF Some]
  show ?thesis by (cases "th_pc th") (auto simp: move_def Some stutter moves split: prod.split)
qed (simp add: move_def stutter)

lemma step_rank:
  assumes "step f ttl s s'"
  shows "threads s' i = threads s i \<or> rank i s' < rank i s"
  using assms by (elim stepE) (auto simp: rank_def intro: order.strict_trans pc_rank_after)

lemma move_rank:
  assumes "threads s i = Some th" and "\<not> finished i s"
  shows "rank i (move f ttl i s) < rank i s"
  using assms
  by (cases "th_pc th")
    (auto simp: finished_def move_def rank_def split: prod.split intro: order.strict_trans pc_rank_after)

lemma threads_stay:
  assumes "step f ttl s s'" and "threads s i = Some th"
  shows "\<exists>th'. threads s' i = Some th'"
  using assms by (elim stepE) auto

text \<open>The moves of a goroutine in the first \<open>n\<close> steps of an execution, with those it has left.\<close>

definition moves :: "(nat \<Rightarrow> 's conc) \<Rightarrow> nat \<Rightarrow> nat set" where
  "moves \<sigma> i = {n. threads (\<sigma> (Suc n)) i \<noteq> threads (\<sigma> n) i}"

lemma moves_bounded:
  assumes "\<forall>n. step f ttl (\<sigma> n) (\<sigma> (Suc n))"
  shows "card (moves \<sigma> i \<inter> {..<n}) + rank i (\<sigma> n) \<le> rank i (\<sigma> 0)"
proof (induction n)
  case (Suc n)
  have "moves \<sigma> i \<inter> {..<Suc n} = (if n \<in> moves \<sigma> i then {n} else {}) \<union> moves \<sigma> i \<inter> {..<n}"
    by (auto simp: less_Suc_eq)
  then have "card (moves \<sigma> i \<inter> {..<Suc n}) = (if n \<in> moves \<sigma> i then 1 else 0) + card (moves \<sigma> i \<inter> {..<n})"
    by simp
  with step_rank [of f ttl "\<sigma> n" "\<sigma> (Suc n)" i] assms Suc show ?case
    by (auto simp: moves_def rank_def)
qed simp

lemma finite_below: "finite (A :: nat set) \<Longrightarrow> \<exists>n. A \<subseteq> {..<n}"
  unfolding finite_nat_set_iff_bounded by auto

lemma moves_finite:
  assumes "\<forall>n. step f ttl (\<sigma> n) (\<sigma> (Suc n))"
  shows "finite (moves \<sigma> i) \<and> card (moves \<sigma> i) \<le> rank i (\<sigma> 0)"
proof (rule finite_if_finite_subsets_card_bdd)
  fix G assume G: "G \<subseteq> moves \<sigma> i" "finite G"
  then obtain n where "G \<subseteq> {..<n}" using finite_below by blast
  with G have "card G \<le> card (moves \<sigma> i \<inter> {..<n})" by (intro card_mono) auto
  with moves_bounded [OF assms, of i n] show "card G \<le> rank i (\<sigma> 0)" by linarith
qed

lemma after_last_move:
  assumes "\<forall>n. step f ttl (\<sigma> n) (\<sigma> (Suc n))"
  shows "\<exists>n. \<forall>m\<ge>n. threads (\<sigma> m) i = threads (\<sigma> n) i \<and> m \<notin> moves \<sigma> i"
proof -
  obtain n where n: "moves \<sigma> i \<subseteq> {..<n}"
    using moves_finite [OF assms, of i] finite_below by blast
  then have quiet: "m \<notin> moves \<sigma> i" if "n \<le> m" for m using that by auto
  have "threads (\<sigma> m) i = threads (\<sigma> n) i" if "n \<le> m" for m
    using that by (induction m rule: dec_induct) (use quiet in \<open>auto simp: moves_def\<close>)
  with quiet show ?thesis by blast
qed

lemma threads_stay_run:
  assumes "\<forall>n. step f ttl (\<sigma> n) (\<sigma> (Suc n))" and "threads (\<sigma> 0) i = Some th"
  shows "\<exists>th'. threads (\<sigma> n) i = Some th'"
  using assms threads_stay by (induction n) blast+

section \<open>Properties\<close>


lemma cached_op_fresh:
  "f b c k d (rd_store x) = ((dup, None), b') \<Longrightarrow>
   cached_op f \<lparr>backend = b, cache = NewLocalCache, sweeping = True\<rparr> c k d x =
     ((dup, None), \<lparr>backend = b', cache = Set NewLocalCache k d (rd_set x), sweeping = True\<rparr>)"
  using cached_op_New [of f b c k d x dup b'] by (simp add: NewCached_def)




text \<open>
  C12: eviction never loses a live entry. In every reachable state and for every step of any
  goroutine or sweeper, an entry of a cache that has not expired by the clock is still there after
  the step, unless a goroutine of that process has just assigned the same key anew: in particular
  when a key is refreshed between the moment a reader finds it expired and the moment it takes the
  write lock to delete it.
\<close>

theorem eviction_keeps_live_entries:
  assumes "reachable f ttl (initial t0 b) s" and "step f ttl s s'"
    and "cache_lookup (caches s p) k = Some e"
    and "representable t0" and "representable (clock s)" and "clock s < sint e"
  shows "cache_lookup (caches s' p) k = Some e \<or>
    (\<exists>i th b' t. threads s i = Some th \<and> th_pc th = Write b' t \<and> th_proc th = p \<and> th_key th = k \<and>
      cache_lookup (caches s' p) k = Some (UnixNano (time_Add t ttl)))"
proof -
  have ok: "cache_ok (caches s q)" for q using reachable_cache_ok [OF assms(1)] by blast
  have live: "\<not> sint e \<le> unix_ns t" if "t0 \<le> t" "t \<le> clock s" for t
  proof -
    have "representable t" using that assms(4,5) by (simp add: representable_def)
    then show ?thesis using that(2) assms(6) by (simp add: unix_ns_representable)
  qed
  note times = reachable_times [OF assms(1)]
  from assms(2) show ?thesis
  proof cases
    case (evict i th)
    with assms(3) live [of "clock s"] times show ?thesis by (auto simp: lookup_evict [OF ok] split: option.split)
  next
    case (assign i th b' t)
    with assms(3) show ?thesis by (auto simp: lookup_Set [OF ok])
  next
    case (sweep_step q now j)
    with times have "t0 \<le> now" "now \<le> clock s" by blast+
    with sweep_step assms(3) live [of now] show ?thesis by (auto simp: lookup_sweep_shard [OF ok])
  qed (use assms(3) in simp_all)
qed

text \<open>
  The race in question: the entry of a key expires; one goroutine finds it expired and is about to
  take the write lock; another one asks the store again and refreshes the entry; then the first
  one gets the lock.
\<close>

lemma spawn_reachable:
  "reachable f ttl s0 s \<Longrightarrow> threads s i = None \<Longrightarrow>
   reachable f ttl s0 (s\<lparr>threads := (threads s)(i \<mapsto> \<lparr>th_proc = p, th_ctx = c, th_key = k, th_pc = Begin\<rparr>)\<rparr>)"
  by (rule next_step [OF _ spawn])

lemma alone_after_spawn:
  assumes "reachable f ttl s0 s" and "threads s i = None"
    and "cached_op f \<lparr>backend = shared s, cache = caches s p, sweeping = True\<rparr> c k ttl (now_readings (clock s)) = (r, cs)"
  shows "\<exists>s'. reachable f ttl s0 s' \<and>
    threads s' = (threads s)(i \<mapsto> \<lparr>th_proc = p, th_ctx = c, th_key = k, th_pc = Done r\<rparr>) \<and>
    shared s' = backend cs \<and> caches s' = (caches s)(p := cache cs) \<and> clock s' = clock s"
proof -
  let ?th = "\<lparr>th_proc = p, th_ctx = c, th_key = k, th_pc = Begin\<rparr>"
  let ?s = "s\<lparr>threads := (threads s)(i \<mapsto> ?th)\<rparr>"
  have "\<exists>s'. reachable f ttl ?s s' \<and> threads s' = (threads ?s)(i \<mapsto> ?th\<lparr>th_pc := Done r\<rparr>) \<and>
      shared s' = backend cs \<and> caches s' = (caches ?s)(th_proc ?th := cache cs) \<and> clock s' = clock ?s"
    by (rule goroutine_alone) (use assms(3) in simp_all)
  then obtain s' where s': "reachable f ttl ?s s'" "threads s' = (threads ?s)(i \<mapsto> ?th\<lparr>th_pc := Done r\<rparr>)"
      "shared s' = backend cs" "caches s' = (caches ?s)(th_proc ?th := cache cs)" "clock s' = clock ?s"
    by blast
  then show ?thesis
    using reachable_trans [OF s'(1) spawn_reachable [OF assms(1,2)]] by (intro exI [of _ s']) simp
qed

theorem eviction_keeps_live_entries_witness:
  "\<exists>s s' th. reachable Memory_IsDuplicate 100 (initial 0 NewMemory) s \<and>
     threads s 1 = Some th \<and> th_pc th = Evict \<and> th_key th = ''k'' \<and>
     step Memory_IsDuplicate 100 s s' \<and> map_option th_pc (threads s' 1) = Some Ask \<and>
     cache_lookup (caches s' 0) ''k'' = Some 300"
proof -
  let ?f = Memory_IsDuplicate and ?th = "\<lparr>th_proc = 0, th_ctx = None, th_key = ''k'', th_pc = Begin\<rparr>"
  let ?s0 = "initial 0 NewMemory"
  let ?m = "\<lambda>e. \<lparr>ms_data = [''k'' \<mapsto> \<lparr>expiresAt = e\<rparr>], Err = None\<rparr>"
  let ?c0 = "Set NewLocalCache ''k'' 100 0"
  have "?f NewMemory None ''k'' 100 0 = (allowed, ?m 100)"
    by (simp add: Memory_IsDuplicate_def NewMemory_def time_Add_def)
  then have op: "cached_op ?f \<lparr>backend = shared ?s0, cache = caches ?s0 0, sweeping = True\<rparr> None ''k'' 100
      (now_readings (clock ?s0)) = (allowed, \<lparr>backend = ?m 100, cache = ?c0, sweeping = True\<rparr>)"
    using cached_op_fresh [of ?f NewMemory None "''k''" 100 "now_readings 0" False]
    by (simp add: now_readings_def initial_def)
  have "threads ?s0 0 = None" by (simp add: initial_def)
  from alone_after_spawn [OF start this op] obtain a where
    a: "reachable ?f 100 ?s0 a" "threads a = [0 \<mapsto> \<lparr>th_proc = 0, th_ctx = None, th_key = ''k'', th_pc = Done allowed\<rparr>]"
      "shared a = ?m 100" "caches a 0 = ?c0" "clock a = 0"
    by (auto simp: initial_def)
  define d where "d = a\<lparr>clock := 200, threads := (threads a)(1 \<mapsto> ?th)\<rparr>"
  have "reachable ?f 100 ?s0 (a\<lparr>clock := 200\<rparr>)" by (rule next_step [OF a(1) tick]) (simp add: a(5))
  from spawn_reachable [OF this, of 1 0 None "''k''"] have rd: "reachable ?f 100 ?s0 d"
    by (simp add: d_def a(2))
  have c0: "cache_lookup ?c0 ''k'' = Some 100" "cache_ok ?c0"
    by (simp_all add: cache_laws time_Add_def UnixNano_def)
  define g where "g = goto 1 ?th Evict d"
  have "reachable ?f 100 d g"
    using reachable_look [of d 1 ?th ?f 100] c0(1)
    by (simp add: d_def g_def a(4) Contains_read_eq after_look_def UnixNano_def)
  then have rg: "reachable ?f 100 ?s0 g" by (rule reachable_trans [OF _ rd])
  let ?c1 = "Contains_evict ?c0 ''k'' 200"
  have "Contains ?c0 ''k'' 200 200 = (False, ?c1)"
    using c0(1) by (simp add: Contains_def Contains_read_eq UnixNano_def)
  then have op2: "cached_op ?f \<lparr>backend = shared g, cache = caches g 0, sweeping = True\<rparr> None ''k'' 100
      (now_readings (clock g)) = (allowed, \<lparr>backend = ?m 300, cache = Set ?c1 ''k'' 100 200, sweeping = True\<rparr>)"
    by (simp add: g_def d_def a(3,4) cached_op_def CachedStore_IsDuplicate_def now_readings_def Memory_IsDuplicate_def time_Add_def)
  have "threads g 2 = None" by (simp add: g_def d_def a(2))
  from alone_after_spawn [OF rg this op2] obtain s where
    s: "reachable ?f 100 ?s0 s" "threads s 1 = Some (?th\<lparr>th_pc := Evict\<rparr>)"
      "caches s 0 = Set ?c1 ''k'' 100 200" "clock s = 200"
      "threads s = [0 \<mapsto> ?th\<lparr>th_pc := Done allowed\<rparr>, 1 \<mapsto> ?th\<lparr>th_pc := Evict\<rparr>, 2 \<mapsto> ?th\<lparr>th_pc := Done allowed\<rparr>]"
    by (auto simp: g_def d_def a(2))
  have live: "cache_lookup (caches s 0) ''k'' = Some 300"
    using c0(2) by (simp add: s(3) cache_laws time_Add_def UnixNano_def)
  let ?th' = "?th\<lparr>th_pc := Evict\<rparr>"
  let ?s' = "goto 1 ?th' Ask (set_cache (th_proc ?th') (Contains_evict (caches s (th_proc ?th')) (th_key ?th') (clock s)) s)"
  have st: "step ?f 100 s ?s'" by (rule evict [OF s(2)]) simp
  have "cache_lookup (caches ?s' 0) ''k'' = Some 300 \<or>
      (\<exists>i th b' t. threads s i = Some th \<and> th_pc th = Write b' t \<and> th_proc th = 0 \<and> th_key th = ''k'' \<and>
        cache_lookup (caches ?s' 0) ''k'' = Some (UnixNano (time_Add t 100)))"
    by (rule eviction_keeps_live_entries [OF s(1) st live]) (simp_all add: representable_def s(4))
  moreover have "\<not> (threads s i = Some th \<and> th_pc th = Write b' t)" for i th b' t
    using s(5) by (auto split: if_splits)
  ultimately have "cache_lookup (caches ?s' 0) ''k'' = Some 300" by blast
  with s st show ?thesis by (intro exI [of _ s] exI [of _ ?s']) simp
qed


text \<open>The schedule that always runs one goroutine.\<close>

lemma move_again:
  assumes "threads s i = Some th"
  shows "finished i s \<or> threads (move f ttl i s) i \<noteq> threads s i"
proof (rule ccontr)
  assume "\<not> ?thesis"
  with move_rank [OF assms, of f ttl] show False by (simp add: rank_def)
qed


end
