(* ===== verification/Sha256_Check.thy ===== *)
theory Sha256_Check
  imports Sha256
begin

text \<open>
  A published test vector for the executable model of SHA-256, evaluated by the simplifier. It
  stands in a theory of its own because the evaluation takes about a minute.
\<close>

text \<open>The model computes the published digest of the three bytes \<open>abc\<close>.\<close>

lemma sha256_known_answer:
  "sha256 (bytes_of ''abc'') =
     [0xBA, 0x78, 0x16, 0xBF, 0x8F, 0x01, 0xCF, 0xEA, 0x41, 0x41, 0x40, 0xDE, 0x5D, 0xAE, 0x22, 0x23,
      0xB0, 0x03, 0x61, 0xA3, 0x96, 0x17, 0x7A, 0x9C, 0xB4, 0x10, 0xFF, 0x61, 0xF2, 0x00, 0x15, 0xAD]"
  by code_simp

end
