(* ===== verification/Spec2Isabelle.thy ===== *)
theory Spec2Isabelle
  imports Server Concurrency Sha256_Check
begin

text \<open>
  Verification of the deduplication service.

  \<^bold>\<open>The program.\<close> The service stands beside an nginx gateway. For every request nginx hands
  it, it computes a fingerprint of method, URI and body, asks a store whether that fingerprint was
  seen within the deduplication window, and answers 200 with an \<open>X-Accel-Redirect\<close> header
  (nginx then forwards the request), or 409 (duplicate). The store is Redis, in degraded mode a
  store in memory that always fails, each optionally behind a local cache. Five middlewares surround
  the handlers.

  \<^bold>\<open>The theories\<close>, in the order of the calls, from the bottom up.

  \<^item> \<open>Prelude\<close>: bytes and strings, Go's error values with \<open>errors.Is\<close>, functions that
    may panic, association lists as Go maps; the collections \<open>cache_laws\<close> and \<open>go_map\<close>.
  \<^item> \<open>Sha256\<close>, \<open>Sha256_Check\<close>: SHA-256 as an incremental hash object (\<open>New\<close>,
    \<open>Write\<close>, \<open>Sum\<close>, \<open>Reset\<close>), with the proof that writing in pieces is writing at once,
    and test vectors evaluated in the kernel.
  \<^item> \<open>Fingerprint\<close> models \<open>internal/fingerprint/fingerprint.go\<close>: \<open>FromHTTP\<close>,
    \<open>RedisKey\<close>, \<open>Hash\<close>, \<open>StreamingRedisKey\<close>, \<open>StreamingHash\<close>, the pool of hash
    objects, \<open>io.Copy\<close> over a body that arrives in pieces and may end with an error. The two ways
    of computing a key are shown equal; the key format, the read error path and the missing field
    separator are properties.
  \<^item> \<open>Go_Strings\<close>, \<open>Go_Time\<close>: what the source uses of \<open>strings\<close>, \<open>strconv\<close>,
    \<open>path/filepath\<close> and \<open>time\<close>: trimming and upper case, decimal numbers,
    \<open>ParseDuration\<close> and \<open>Duration.String\<close> on 64-bit words, \<open>UnixNano\<close> with its
    wrap-around.
  \<^item> \<open>Local_Cache\<close> models \<open>internal/store/localcache.go\<close>: 256 shards chosen by FNV-1a,
    \<open>Contains\<close> with lazy eviction, \<open>Set\<close>, \<open>Len\<close>, \<open>sweep\<close> and \<open>SweepLoop\<close>. The
    invariant is \<open>cache_ok\<close>; the locale of its laws is interpreted on these operations, and the
    cache refines a map that remembers the last assignment of each key.
  \<^item> \<open>Config\<close> models \<open>internal/config/config.go\<close>: \<open>Load\<close> with every default, the file
    lookup, the durations, \<open>validate\<close> and the table of excluded methods.
  \<^item> \<open>Store\<close> models \<open>internal/store/store.go\<close>: \<open>RedisStore\<close> and \<open>MemoryStore\<close>.
    The contract of the interface is stated as the locales \<open>blocking_store\<close> (what blocks
    duplicates), \<open>tracking_store\<close> (what lets new requests through) and \<open>dedup_store\<close> (both,
    and duplicates move nothing); the consequences for sequences of calls are proved there. The memory
    store interprets \<open>dedup_store\<close>, the Redis store does for every client that satisfies
    \<open>redis_set_nx\<close>.
  \<^item> \<open>Cached_Store\<close> models \<open>internal/store/cached_store.go\<close> over any backend; the locale
    \<open>cached_backend\<close> carries the contract from the backend to the cached store.
  \<^item> \<open>Store_Interface\<close>: the values of the Go interface \<open>Store\<close> and the dispatch of its
    three methods; the blocking contract for all of them.
  \<^item> \<open>Collectors\<close> models \<open>internal/metrics/metrics.go\<close>; \<open>Effects\<close> the calls on metrics,
    logger, response and process that an operation makes, as values in a list.
  \<^item> \<open>Handler\<close> models \<open>internal/handler/xaccel.go\<close> and \<open>health.go\<close>. The specification is
    \<open>decision\<close>, without hash objects, buffers, logs and metrics; \<open>Handle\<close> implements it.
  \<^item> \<open>Middleware\<close> models \<open>internal/middleware/middleware.go\<close>; the locale
    \<open>appending\<close> is what a handler promises a middleware, interpreted on both handlers.
  \<^item> \<open>Server\<close> models \<open>cmd/server/main.go\<close>: \<open>initStore\<close>, the wrapping in a cache, the chain
    of middlewares, the routes, the server settings, and \<open>run\<close> from the configuration to the exit
    status, with the requests served in between.
  \<^item> \<open>Concurrency\<close>: \<open>CachedStore.IsDuplicate\<close> cut at its critical sections and clock
    readings, for any number of goroutines and sweepers in several processes that share one backend;
    an inductive step relation with reachability, invariants by rule induction and termination under
    every fair schedule.

  \<^bold>\<open>State and effects.\<close> A method that changes its receiver returns the new value. A clock
  reading is an argument, one per call of \<open>time.Now\<close>, so that the time that passes within an
  operation is visible; times are integers (nanoseconds), durations and stored expiry times 64-bit
  words. The calls of a request on libraries are recorded in the trace of the \<open>world\<close>. A panic is
  the outcome \<open>Panicked\<close>.

  \<^bold>\<open>What is shown.\<close> Blocking: one request per window for the Redis store, the cached store,
  the handler, the whole service and all interleavings of goroutines. Answering: fresh requests are
  allowed, every request is answered once, degraded mode allows everything, the health check reports
  what the store says. Exactness: what the memory store answers in terms of its history, how long the
  cached store can block beyond a window, what a cache entry means at the edges of the 64-bit range.
  Robustness: error paths, panics, valid configurations, metrics that cannot panic, closing on every
  way out, the exit status.

  \<^bold>\<open>Parameters.\<close> Code outside the repository is an argument of the definitions that call it:
  the viper library (\<open>viper\<close>), the Unicode tables beyond ASCII (\<open>unicode_tables\<close>), the
  floating-point expression for fractions in \<open>ParseDuration\<close> (\<open>go_frac\<close>), the Redis client
  (\<open>redis_client\<close>; hypotheses \<open>redis_set_nx\<close> and \<open>redis_ping_keeps\<close>), the gin context
  and routing tree (\<open>gin\<close>, \<open>gin_router\<close>; hypotheses \<open>gin_context\<close> and
  \<open>gin_routing\<close>), the operating system (\<open>run_env\<close>). Each hypothesis is met by a concrete
  instance, on which the witnesses run: \<open>server_client\<close>, \<open>sample_gin\<close>,
  \<open>sample_router\<close>.

  \<^bold>\<open>Bounds.\<close> No definition needs fuel: loops are recursions over lists (shards, chunks,
  digits) or end by a measure on the remaining input. The expiry of a cache entry is exact while times
  are \<open>representable\<close>, that is within the signed 64-bit range of nanoseconds, years 1677 to 2262.
  Redis times to live are whole positive milliseconds, since the client sends \<open>PX\<close>.

  \<^bold>\<open>Not modelled.\<close> The serialisation of log lines and JSON objects, the Prometheus registry and
  exposition, the profiler and the handlers behind \<open>gin.WrapH\<close> and \<open>gin.WrapF\<close>, the Go
  scheduler beyond interleaving at critical sections, the HTTP protocol itself, the rotation of the log
  file: library code. The nginx configuration, the scripts and the dashboards are not Go code. The
  interleaving model covers the store; that the handlers of concurrent requests share nothing else
  but the pool of hash objects, which hands an object to one goroutine at a time, is read off the
  source.

  \<^bold>\<open>What the proofs brought to light.\<close> The local cache starts a new full window with every
  duplicate the backend reports (theory \<open>Cached_Store\<close>); the hashed fields
  are not separated (theory \<open>Fingerprint\<close>); the body limit has no
  effect (theory \<open>Handler\<close>); panicking requests are not counted
  (theory \<open>Server\<close>).
\<close>

end
